theory Spec2Isabelle
  imports Complex_Main "HOL-Library.AList"
begin

section \<open>Scoreboard statistics: parsing, raw store and player averages\<close>

text \<open>
  A shallow embedding of the data functions of \<^verbatim>\<open>main.py\<close>:
  \<^verbatim>\<open>read_json_db\<close>, \<^verbatim>\<open>write_json_db\<close>, \<^verbatim>\<open>parse_and_store_data\<close> and
  \<^verbatim>\<open>update_player_averages\<close>.

  Conventions of the model.
  \<^item> A Python \<^verbatim>\<open>str\<close> is a list of characters \<open>uchar\<close>: a code point below 256, or a
    code point from 256 on together with its class in the interpreter's Unicode database.
  \<^item> A Python \<^verbatim>\<open>dict\<close> is an association list in insertion order; \<open>dict_set\<close> is
    item assignment, \<open>map_of\<close> is lookup.
  \<^item> Python integers are \<open>int\<close>. Floating point arithmetic is a parameter
    (\<open>float_ops\<close>): the functions never look inside a float.
  \<^item> An exception that leaves a function is the \<open>Inl\<close> branch of its result.
\<close>

subsection \<open>Characters and library functions on strings\<close>

datatype py_error = ValueError | IndexError | OverflowError | UnicodeDecodeError | RecursionError

text \<open>
  The class of a code point from 256 on, as the library functions see it: whitespace
  (\<^verbatim>\<open>str.isspace\<close>), a decimal digit with its value from 0 to 9 (category Nd), another
  alphanumeric character (\<^verbatim>\<open>str.isalnum\<close>), or none of these. The classes exclude each
  other. \<open>Latin c\<close> is the character of code \<open>c\<close>, from 0 to 255, whose classes are written
  out below; \<open>Uni cl cp\<close> is the code point \<open>cp\<close> of 256 or more, \<open>cl\<close> its class.
\<close>

datatype uclass = USpace | UDecimal nat | UAlnum | UOther

datatype uchar = Latin char | Uni uclass nat

type_synonym ustring = "uchar list"

text \<open>A string of characters below 256, written as a literal.\<close>

definition asc :: "string \<Rightarrow> ustring" where
  "asc s = map Latin s"

text \<open>The class \<^verbatim>\<open>\d\<close>, which is also the digits \<^verbatim>\<open>int\<close> reads.\<close>

fun is_digit :: "uchar \<Rightarrow> bool" where
  "is_digit (Latin c) = (let n = (of_char c :: nat) in 48 \<le> n \<and> n \<le> 57)"
| "is_digit (Uni cl cp) = (case cl of UDecimal v \<Rightarrow> True | _ \<Rightarrow> False)"

fun digit_val :: "uchar \<Rightarrow> nat" where
  "digit_val (Latin c) = of_char c - 48"
| "digit_val (Uni cl cp) = (case cl of UDecimal v \<Rightarrow> v | _ \<Rightarrow> 0)"

text \<open>
  Whitespace of \<^verbatim>\<open>str.strip()\<close> and of \<^verbatim>\<open>\s\<close>: the codes 9 to 13, 28 to 32, 133 and 160,
  and the Unicode whitespace from 256 on.
\<close>

fun is_space :: "uchar \<Rightarrow> bool" where
  "is_space (Latin c) =
     (let n = (of_char c :: nat)
      in (9 \<le> n \<and> n \<le> 13) \<or> (28 \<le> n \<and> n \<le> 32) \<or> n = 133 \<or> n = 160)"
| "is_space (Uni cl cp) = (cl = USpace)"

text \<open>
  Whitespace that \<^verbatim>\<open>int\<close> skips around a number: the codes 9 to 13, 32, 133 and 160 (the
  codes 28 to 31 are rejected), and the Unicode whitespace from 256 on.
\<close>

fun is_int_space :: "uchar \<Rightarrow> bool" where
  "is_int_space (Latin c) =
     (let n = (of_char c :: nat) in (9 \<le> n \<and> n \<le> 13) \<or> n = 32 \<or> n = 133 \<or> n = 160)"
| "is_int_space (Uni cl cp) = (cl = USpace)"

text \<open>
  The class \<^verbatim>\<open>\w\<close>: alphanumeric characters (\<^verbatim>\<open>str.isalnum\<close>) and the underscore. Below 256
  these are the ASCII letters and digits, the underscore, and the codes 170, 178, 179, 181,
  185, 186, 188 to 190, 192 to 214, 216 to 246 and 248 to 255.
\<close>

fun is_word :: "uchar \<Rightarrow> bool" where
  "is_word (Latin c) =
     (let n = (of_char c :: nat)
      in (97 \<le> n \<and> n \<le> 122) \<or> (65 \<le> n \<and> n \<le> 90) \<or> (48 \<le> n \<and> n \<le> 57) \<or> n = 95 \<or>
         n = 170 \<or> n = 178 \<or> n = 179 \<or> n = 181 \<or> n = 185 \<or> n = 186 \<or>
         (188 \<le> n \<and> n \<le> 190) \<or> (192 \<le> n \<and> n \<le> 214) \<or> (216 \<le> n \<and> n \<le> 246) \<or>
         (248 \<le> n \<and> n \<le> 255))"
| "is_word (Uni cl cp) = (case cl of UDecimal v \<Rightarrow> True | UAlnum \<Rightarrow> True | _ \<Rightarrow> False)"

text \<open>Leading and trailing characters of a class removed; \<^verbatim>\<open>s.strip()\<close> removes whitespace.\<close>

definition strip_with :: "(uchar \<Rightarrow> bool) \<Rightarrow> ustring \<Rightarrow> ustring" where
  "strip_with P s = rev (dropWhile P (rev (dropWhile P s)))"

definition strip :: "ustring \<Rightarrow> ustring" where
  "strip s = strip_with is_space s"

text \<open>\<^verbatim>\<open>s.split('\n')\<close>: the pieces between line feeds; the empty string gives one empty piece.\<close>

primrec split_lines :: "ustring \<Rightarrow> ustring list" where
  "split_lines [] = [[]]"
| "split_lines (c # cs) =
     (if c = Latin (CHR 0x0A) then [] # split_lines cs
      else (case split_lines cs of [] \<Rightarrow> [[c]] | l # ls \<Rightarrow> (c # l) # ls))"

text \<open>The value of the decimal digits of a string, most significant first.\<close>

definition decimal :: "ustring \<Rightarrow> nat" where
  "decimal s = foldl (\<lambda>a c. 10 * a + digit_val c) 0 s"

text \<open>
  \<^verbatim>\<open>int(s)\<close> on a string, base ten: surrounding whitespace is dropped, one sign is allowed,
  then digits, where a single underscore may stand between two digits. Anything else
  raises \<^verbatim>\<open>ValueError\<close>, and so does a number of more than \<open>MAX_STR_DIGITS\<close> digits (the
  interpreter's default limit, which the program does not change; leading zeros count,
  underscores and the sign do not). \<open>int_literal\<close> gives the digits of a well-formed number.
\<close>

definition MAX_STR_DIGITS :: nat where
  "MAX_STR_DIGITS = 4300"

fun literal_rest :: "ustring \<Rightarrow> ustring option" where
  "literal_rest [] = Some []"
| "literal_rest (c # cs) =
     (if is_digit c then map_option ((#) c) (literal_rest cs)
      else if c = Latin CHR ''_'' then
        (case cs of
           [] \<Rightarrow> None
         | d # ds \<Rightarrow> if is_digit d then map_option ((#) d) (literal_rest ds) else None)
      else None)"

definition int_literal :: "ustring \<Rightarrow> ustring option" where
  "int_literal s =
     (case s of
        [] \<Rightarrow> None
      | c # cs \<Rightarrow> if is_digit c then map_option ((#) c) (literal_rest cs) else None)"

definition int_value :: "bool \<Rightarrow> ustring \<Rightarrow> py_error + int" where
  "int_value negative body =
     (case int_literal body of
        None \<Rightarrow> Inl ValueError
      | Some ds \<Rightarrow>
          if MAX_STR_DIGITS < length ds then Inl ValueError
          else Inr (if negative then - int (decimal ds) else int (decimal ds)))"

definition py_int :: "ustring \<Rightarrow> py_error + int" where
  "py_int s =
     (case strip_with is_int_space s of
        [] \<Rightarrow> Inl ValueError
      | c # cs \<Rightarrow>
          if c = Latin CHR ''-'' then int_value True cs
          else if c = Latin CHR ''+'' then int_value False cs
          else int_value False (c # cs))"

subsection \<open>The row pattern and its backtracking matcher\<close>

text \<open>
  The pattern of \<^verbatim>\<open>parse_and_store_data\<close> is a sequence of repeated character classes,
  seven of them captured:
  \<^verbatim>\<open>^\s*(\d+)\s+([\w\s.-]+?)\s+(\d+)\s+(\d+)\s+(\d+)\s+(\d+)\s+(\d+)\<close>.
  \<open>re.match\<close> anchors at the start of the string only and returns the first match in the
  priority order of backtracking: a greedy repetition tries the longest run first,
  a lazy one the shortest.
\<close>

datatype cls = Digit | Space | NameChar

fun in_cls :: "cls \<Rightarrow> uchar \<Rightarrow> bool" where
  "in_cls Digit c = is_digit c"
| "in_cls Space c = is_space c"
| "in_cls NameChar c = (is_word c \<or> is_space c \<or> c = Latin CHR ''.'' \<or> c = Latin CHR ''-'')"

datatype quant = Star | Plus | PlusLazy

type_synonym elem = "cls \<times> quant \<times> bool"

definition run :: "cls \<Rightarrow> ustring \<Rightarrow> nat" where
  "run c s = length (takeWhile (in_cls c) s)"

text \<open>The lengths a repetition may consume when at most \<open>n\<close> characters are available, in the order tried.\<close>

fun cands :: "quant \<Rightarrow> nat \<Rightarrow> nat list" where
  "cands Star n = rev [0..<Suc n]"
| "cands Plus n = rev [1..<Suc n]"
| "cands PlusLazy n = [1..<Suc n]"

primrec first_some :: "('a \<Rightarrow> 'b option) \<Rightarrow> 'a list \<Rightarrow> 'b option" where
  "first_some f [] = None"
| "first_some f (x # xs) = (case f x of Some y \<Rightarrow> Some y | None \<Rightarrow> first_some f xs)"

text \<open>\<open>match_seq p s\<close>: the captured groups of the first match of \<open>p\<close> at the start of \<open>s\<close>.\<close>

fun match_seq :: "elem list \<Rightarrow> ustring \<Rightarrow> ustring list option" where
  "match_seq [] s = Some []"
| "match_seq ((c, q, captured) # es) s =
     first_some
       (\<lambda>k. map_option (\<lambda>gs. if captured then take k s # gs else gs) (match_seq es (drop k s)))
       (cands q (run c s))"

definition row_pattern :: "elem list" where
  "row_pattern =
     [(Space, Star, False), (Digit, Plus, True),
      (Space, Plus, False), (NameChar, PlusLazy, True),
      (Space, Plus, False), (Digit, Plus, True),
      (Space, Plus, False), (Digit, Plus, True),
      (Space, Plus, False), (Digit, Plus, True),
      (Space, Plus, False), (Digit, Plus, True),
      (Space, Plus, False), (Digit, Plus, True)]"

subsection \<open>Records and the raw store\<close>

record match_record =
  place :: int
  nickname :: ustring
  kills :: int
  deaths :: int
  assists :: int
  treasury :: int
  score :: int

type_synonym raw_store = "(ustring \<times> match_record list) list"

text \<open>\<^verbatim>\<open>d[k] = v\<close>: an existing key keeps its position, a new key goes to the end.\<close>

definition dict_set :: "('k \<times> 'v) list \<Rightarrow> 'k \<Rightarrow> 'v \<Rightarrow> ('k \<times> 'v) list" where
  "dict_set d k v = AList.update k v d"

text \<open>
  One line of the loop of \<^verbatim>\<open>parse_and_store_data\<close>: \<open>Inr None\<close> when the pattern does
  not match, \<open>Inr (Some r)\<close> for the appended record, \<open>Inl\<close> if \<^verbatim>\<open>int\<close> or the unpacking
  of the groups raised.
\<close>

definition parse_line :: "ustring \<Rightarrow> py_error + match_record option" where
  "parse_line line =
     (case match_seq row_pattern (strip line) of
        None \<Rightarrow> Inr None
      | Some gs \<Rightarrow>
          (case gs of
             [g1, g2, g3, g4, g5, g6, g7] \<Rightarrow>
               (case (py_int g1, py_int g3, py_int g4, py_int g5, py_int g6, py_int g7) of
                  (Inr p, Inr k, Inr d, Inr a, Inr t, Inr s) \<Rightarrow>
                    Inr (Some \<lparr>place = p, nickname = strip g2, kills = k, deaths = d,
                               assists = a, treasury = t, score = s\<rparr>)
                | _ \<Rightarrow> Inl ValueError)
           | _ \<Rightarrow> Inl ValueError))"

fun parse_lines :: "ustring list \<Rightarrow> match_record list \<Rightarrow> py_error + match_record list" where
  "parse_lines [] acc = Inr acc"
| "parse_lines (l # ls) acc =
     (case parse_line l of
        Inl e \<Rightarrow> Inl e
      | Inr None \<Rightarrow> parse_lines ls acc
      | Inr (Some r) \<Rightarrow> parse_lines ls (acc @ [r]))"

text \<open>
  \<^verbatim>\<open>parse_and_store_data(image_name, data, raw_data_dict)\<close> returns the count; the
  dictionary it mutates is returned with it. The dictionary is assigned after the loop, so
  an exception in the loop leaves it as it was.
\<close>

definition parse_and_store_data ::
  "ustring \<Rightarrow> ustring \<Rightarrow> raw_store \<Rightarrow> py_error + (nat \<times> raw_store)" where
  "parse_and_store_data image_name data raw_data_dict =
     (case parse_lines (split_lines (strip data)) [] of
        Inl e \<Rightarrow> Inl e
      | Inr stats_for_this_image \<Rightarrow>
          Inr (length stats_for_this_image,
               if stats_for_this_image \<noteq> []
               then dict_set raw_data_dict image_name stats_for_this_image
               else raw_data_dict))"

subsection \<open>Files\<close>

text \<open>
  A file is absent, cannot be opened (any other \<^verbatim>\<open>IOError\<close>), or holds bytes.
  \<^verbatim>\<open>json.load\<close> on the opened file and \<^verbatim>\<open>json.dump\<close> are parameters. \<open>json_load bytes\<close>
  is the loaded document, taken to be a dictionary, or one of the ways \<^verbatim>\<open>json.load\<close>
  fails: \<^verbatim>\<open>JSONDecodeError\<close>, an \<^verbatim>\<open>IOError\<close> while reading, or any other exception
  (\<^verbatim>\<open>UnicodeDecodeError\<close> for bytes that are not UTF-8, \<^verbatim>\<open>RecursionError\<close>, \<^verbatim>\<open>ValueError\<close>
  for a number beyond the digit limit), which no \<^verbatim>\<open>except\<close> clause of \<^verbatim>\<open>read_json_db\<close>
  catches. The result \<open>Inr None\<close> of \<open>read_json_db\<close> is Python's \<^verbatim>\<open>None\<close>, \<open>Inr (Some [])\<close>
  is the empty dictionary, \<open>Inl e\<close> is the exception \<open>e\<close> leaving the function.
\<close>

datatype file_state = Absent | Denied | Present string

type_synonym file_system = "string \<Rightarrow> file_state"

datatype 'd load_result = Loaded 'd | JSONDecodeError | ReadIOError | Raised py_error

definition RAW_STATS_FILE :: string where
  "RAW_STATS_FILE = ''raw_stats.json''"

definition PLAYER_AVERAGES_FILE :: string where
  "PLAYER_AVERAGES_FILE = ''player_averages.json''"

definition read_json_db ::
  "(string \<Rightarrow> ('k \<times> 'v) list load_result) \<Rightarrow> file_system \<Rightarrow> string \<Rightarrow>
   py_error + ('k \<times> 'v) list option" where
  "read_json_db json_load fs db_path =
     (case fs db_path of
        Present bytes \<Rightarrow>
          (case json_load bytes of
             Loaded d \<Rightarrow> Inr (Some d)
           | JSONDecodeError \<Rightarrow> Inr (Some [])
           | ReadIOError \<Rightarrow> Inr None
           | Raised e \<Rightarrow> Inl e)
      | Absent \<Rightarrow> Inr (Some [])
      | Denied \<Rightarrow> Inr None)"

definition write_json_db ::
  "('d \<Rightarrow> string) \<Rightarrow> file_system \<Rightarrow> string \<Rightarrow> 'd \<Rightarrow> file_system" where
  "write_json_db json_dump fs db_path data =
     (case fs db_path of
        Denied \<Rightarrow> fs
      | _ \<Rightarrow> fs(db_path := Present (json_dump data)))"

subsection \<open>Edit distance\<close>

text \<open>\<^verbatim>\<open>Levenshtein.distance\<close>: the least number of insertions, deletions and substitutions.\<close>

fun levenshtein :: "ustring \<Rightarrow> ustring \<Rightarrow> nat" where
  "levenshtein [] ys = length ys"
| "levenshtein (x # xs) [] = length (x # xs)"
| "levenshtein (x # xs) (y # ys) =
     min (min (levenshtein xs (y # ys) + 1) (levenshtein (x # xs) ys + 1))
         (levenshtein xs ys + (if x = y then 0 else 1))"

definition MAX_DISTANCE :: nat where
  "MAX_DISTANCE = 3"

subsection \<open>Recent matches and active nicknames\<close>

text \<open>The sort key of a file name: \<^verbatim>\<open>int(filename.split('-')[0])\<close>.\<close>

definition file_key :: "ustring \<Rightarrow> py_error + int" where
  "file_key filename = py_int (takeWhile (\<lambda>c. c \<noteq> Latin CHR ''-'') filename)"

fun file_keys :: "ustring list \<Rightarrow> py_error + (int \<times> ustring) list" where
  "file_keys [] = Inr []"
| "file_keys (f # fs) =
     (case file_key f of
        Inl e \<Rightarrow> Inl e
      | Inr k \<Rightarrow> (case file_keys fs of Inl e \<Rightarrow> Inl e | Inr ks \<Rightarrow> Inr ((k, f) # ks)))"

text \<open>
  \<^verbatim>\<open>all_known_files.sort(key=..., reverse=True)\<close>: the keys are computed first, then the
  list is sorted by descending key; the sort is stable, names with equal keys keep their
  order, as the insertion sort \<open>sort_key\<close> on the negated key does.
\<close>

definition sort_files_desc :: "ustring list \<Rightarrow> py_error + ustring list" where
  "sort_files_desc files =
     (case file_keys files of
        Inl e \<Rightarrow> Inl e
      | Inr kfs \<Rightarrow> Inr (map snd (sort_key (\<lambda>kf. - fst kf) kfs)))"

definition recent_files :: "raw_store \<Rightarrow> py_error + ustring list" where
  "recent_files raw_data_dict =
     (case sort_files_desc (map fst raw_data_dict) of
        Inl e \<Rightarrow> Inl e
      | Inr all_known_files \<Rightarrow> Inr (take 10 all_known_files))"

definition active_nicknames :: "raw_store \<Rightarrow> ustring list \<Rightarrow> ustring set" where
  "active_nicknames raw_data_dict recent =
     set (concat (map (\<lambda>filename. case map_of raw_data_dict filename of
                                   None \<Rightarrow> []
                                 | Some player_stats \<Rightarrow> map nickname player_stats) recent))"

subsection \<open>Grouping nicknames\<close>

type_synonym stat = "int \<times> int \<times> int \<times> int \<times> int \<times> int"

definition stats_of :: "match_record \<Rightarrow> stat" where
  "stats_of player_stat =
     (place player_stat, kills player_stat, deaths player_stat,
      assists player_stat, treasury player_stat, score player_stat)"

definition all_stats :: "raw_store \<Rightarrow> match_record list" where
  "all_stats raw_data_dict = concat (map snd raw_data_dict)"

text \<open>
  The inner loop over \<^verbatim>\<open>grouped_data\<close>: the list of the first name within
  \<open>MAX_DISTANCE\<close> gets the tuple and the loop breaks; \<open>None\<close> is \<^verbatim>\<open>found == False\<close>.
\<close>

fun append_first_fit ::
  "ustring \<Rightarrow> stat \<Rightarrow> (ustring \<times> stat list) list \<Rightarrow> (ustring \<times> stat list) list option" where
  "append_first_fit nick stats [] = None"
| "append_first_fit nick stats ((name, l) # g) =
     (if levenshtein nick name \<le> MAX_DISTANCE then Some ((name, l @ [stats]) # g)
      else (case append_first_fit nick stats g of
              None \<Rightarrow> None
            | Some g' \<Rightarrow> Some ((name, l) # g')))"

definition group_step ::
  "(ustring \<times> stat list) list \<Rightarrow> match_record \<Rightarrow> (ustring \<times> stat list) list" where
  "group_step grouped_data player_stat =
     (case append_first_fit (nickname player_stat) (stats_of player_stat) grouped_data of
        Some g \<Rightarrow> g
      | None \<Rightarrow> dict_set grouped_data (nickname player_stat) [stats_of player_stat])"

definition group_records :: "match_record list \<Rightarrow> (ustring \<times> stat list) list" where
  "group_records stats = foldl group_step [] stats"

subsection \<open>Averages\<close>

text \<open>
  The float operations the function uses: \<open>int_div a b\<close> is \<^verbatim>\<open>a / b\<close> on integers, \<open>None\<close>
  when the quotient is beyond the float range and \<^verbatim>\<open>OverflowError\<close> is raised;
  \<open>float_div\<close> is \<^verbatim>\<open>/\<close> on floats with a positive divisor, \<open>round2 x\<close> is \<^verbatim>\<open>round(x, 2)\<close>,
  \<open>round0 x\<close> is \<^verbatim>\<open>round(x)\<close> on a finite float and \<open>positive x\<close> is \<^verbatim>\<open>x > 0\<close>; these do
  not raise.
\<close>

record 'f float_ops =
  int_div :: "int \<Rightarrow> int \<Rightarrow> 'f option"
  float_div :: "'f \<Rightarrow> 'f \<Rightarrow> 'f"
  round2 :: "'f \<Rightarrow> 'f"
  round0 :: "'f \<Rightarrow> int"
  positive :: "'f \<Rightarrow> bool"

record 'f player_average =
  games_played :: nat
  avg_place :: int
  kd :: 'f
  avg_kills :: 'f
  avg_deaths :: 'f
  avg_assists :: 'f
  avg_score :: 'f

type_synonym 'f averages = "(ustring \<times> 'f player_average) list"

text \<open>The columns of \<^verbatim>\<open>list(zip(*stats_list))\<close> that are read, each already summed.\<close>

fun sum_place :: "stat list \<Rightarrow> int" where
  "sum_place l = sum_list (map (\<lambda>(p, k, d, a, t, s). p) l)"

fun sum_kills :: "stat list \<Rightarrow> int" where
  "sum_kills l = sum_list (map (\<lambda>(p, k, d, a, t, s). k) l)"

fun sum_deaths :: "stat list \<Rightarrow> int" where
  "sum_deaths l = sum_list (map (\<lambda>(p, k, d, a, t, s). d) l)"

fun sum_assists :: "stat list \<Rightarrow> int" where
  "sum_assists l = sum_list (map (\<lambda>(p, k, d, a, t, s). a) l)"

fun sum_score :: "stat list \<Rightarrow> int" where
  "sum_score l = sum_list (map (\<lambda>(p, k, d, a, t, s). s) l)"

text \<open>
  The entry of one retained name. \<open>entry_record\<close> is the two means and the dictionary
  literal, \<open>None\<close> when one of the five divisions overflows. On an empty list \<^verbatim>\<open>cols\<close> is
  empty and \<^verbatim>\<open>cols[1]\<close> raises \<^verbatim>\<open>IndexError\<close> before anything is computed.
\<close>

definition entry_record :: "'f float_ops \<Rightarrow> stat list \<Rightarrow> 'f player_average option" where
  "entry_record fo stats_list =
     (let games = int (length stats_list) in
      case int_div fo (sum_kills stats_list) games of
        None \<Rightarrow> None
      | Some avg_k \<Rightarrow>
      (case int_div fo (sum_deaths stats_list) games of
        None \<Rightarrow> None
      | Some avg_d \<Rightarrow>
      (case int_div fo (sum_place stats_list) games of
        None \<Rightarrow> None
      | Some avg_p \<Rightarrow>
      (case int_div fo (sum_assists stats_list) games of
        None \<Rightarrow> None
      | Some avg_a \<Rightarrow>
      (case int_div fo (sum_score stats_list) games of
        None \<Rightarrow> None
      | Some avg_s \<Rightarrow>
          Some \<lparr>games_played = length stats_list,
                avg_place = round0 fo avg_p,
                kd = (if positive fo avg_d then round2 fo (float_div fo avg_k avg_d) else avg_k),
                avg_kills = round2 fo avg_k,
                avg_deaths = round2 fo avg_d,
                avg_assists = round2 fo avg_a,
                avg_score = round2 fo avg_s\<rparr>)))))"

definition player_entry :: "'f float_ops \<Rightarrow> stat list \<Rightarrow> py_error + 'f player_average" where
  "player_entry fo stats_list =
     (if stats_list = [] then Inl IndexError
      else (case entry_record fo stats_list of
              None \<Rightarrow> Inl OverflowError
            | Some entry \<Rightarrow> Inr entry))"

definition is_active :: "ustring set \<Rightarrow> ustring \<Rightarrow> bool" where
  "is_active active name = (\<exists>active_nick \<in> active. levenshtein name active_nick \<le> MAX_DISTANCE)"

fun averages_loop ::
  "'f float_ops \<Rightarrow> int \<Rightarrow> ustring set \<Rightarrow> (ustring \<times> stat list) list \<Rightarrow>
   'f averages \<times> nat \<Rightarrow> py_error + ('f averages \<times> nat)" where
  "averages_loop fo MIN_GAMES active [] acc = Inr acc"
| "averages_loop fo MIN_GAMES active ((name, stats_list) # rest) (new_averages, players_in_stats) =
     (if \<not> is_active active name then
        averages_loop fo MIN_GAMES active rest (new_averages, players_in_stats)
      else if int (length stats_list) < MIN_GAMES then
        averages_loop fo MIN_GAMES active rest (new_averages, players_in_stats)
      else
        (case player_entry fo stats_list of
           Inl e \<Rightarrow> Inl e
         | Inr entry \<Rightarrow>
             averages_loop fo MIN_GAMES active rest
               (dict_set new_averages name entry, players_in_stats + 1)))"

text \<open>The table \<^verbatim>\<open>new_averages\<close> and the counter \<^verbatim>\<open>players_in_stats\<close> after the loop.\<close>

definition compute_averages ::
  "'f float_ops \<Rightarrow> int \<Rightarrow> raw_store \<Rightarrow> ustring list \<Rightarrow> py_error + ('f averages \<times> nat)" where
  "compute_averages fo MIN_GAMES raw_data_dict recent =
     averages_loop fo MIN_GAMES (active_nicknames raw_data_dict recent)
       (group_records (all_stats raw_data_dict)) ([], 0)"

text \<open>
  What \<^verbatim>\<open>update_player_averages\<close> returns: one of its two messages, or the summary
  (the number of players in the summary text and the two totals).
\<close>

datatype outcome = NoRawData | RawDataEmpty | Updated nat int int

definition update_player_averages ::
  "'f float_ops \<Rightarrow> (string \<Rightarrow> raw_store load_result) \<Rightarrow> ('f averages \<Rightarrow> string) \<Rightarrow> int \<Rightarrow>
   file_system \<Rightarrow> py_error + (outcome \<times> file_system)" where
  "update_player_averages fo json_load json_dump MIN_GAMES fs =
     (case read_json_db json_load fs RAW_STATS_FILE of
        Inl e \<Rightarrow> Inl e
      | Inr None \<Rightarrow> Inr (NoRawData, fs)
      | Inr (Some raw_data_dict) \<Rightarrow>
          if raw_data_dict = [] then Inr (NoRawData, fs)
          else
            (case recent_files raw_data_dict of
               Inl e \<Rightarrow> Inl e
             | Inr recent \<Rightarrow>
                 if all_stats raw_data_dict = [] then Inr (RawDataEmpty, fs)
                 else
                   (case compute_averages fo MIN_GAMES raw_data_dict recent of
                      Inl e \<Rightarrow> Inl e
                    | Inr (new_averages, players_in_stats) \<Rightarrow>
                        Inr (Updated players_in_stats
                               (sum_list (map kills (all_stats raw_data_dict)))
                               (sum_list (map deaths (all_stats raw_data_dict))),
                             write_json_db json_dump fs PLAYER_AVERAGES_FILE new_averages))))"

subsection \<open>Predicates for stating the properties\<close>

text \<open>Tokens of a row: a number, a whitespace gap, a name.\<close>

definition digits :: "ustring \<Rightarrow> bool" where
  "digits s = (s \<noteq> [] \<and> list_all is_digit s)"

definition spaces :: "ustring \<Rightarrow> bool" where
  "spaces s = (s \<noteq> [] \<and> list_all is_space s)"

definition name_text :: "ustring \<Rightarrow> bool" where
  "name_text s = (s \<noteq> [] \<and> list_all (in_cls NameChar) s)"

text \<open>A number with more digits than \<^verbatim>\<open>int\<close> converts.\<close>

definition too_long :: "ustring \<Rightarrow> bool" where
  "too_long s = (MAX_STR_DIGITS < length s)"

text \<open>Some whitespace character of the string is immediately followed by a digit.\<close>

fun space_then_digit :: "ustring \<Rightarrow> bool" where
  "space_then_digit (a # b # cs) = ((is_space a \<and> is_digit b) \<or> space_then_digit (b # cs))"
| "space_then_digit [a] = False"
| "space_then_digit [] = False"

text \<open>
  The declarative reading of a pattern: \<open>fits p s gs\<close> holds when a prefix of \<open>s\<close> splits into
  one piece per element of \<open>p\<close>, each piece within the class of its element and non-empty
  unless starred, \<open>gs\<close> being the captured pieces.
\<close>

fun fits :: "elem list \<Rightarrow> ustring \<Rightarrow> ustring list \<Rightarrow> bool" where
  "fits [] s gs = (gs = [])"
| "fits ((c, q, captured) # es) s gs =
     (\<exists>u v. s = u @ v \<and> list_all (in_cls c) u \<and> (q = Star \<or> u \<noteq> []) \<and>
        (if captured then \<exists>gs'. gs = u # gs' \<and> fits es v gs' else fits es v gs))"

text \<open>The same for the row pattern, with every piece named.\<close>

definition row_shape :: "ustring \<Rightarrow> ustring list \<Rightarrow> bool" where
  "row_shape s gs =
     (\<exists>w0 p w1 n w2 k w3 d w4 a w5 t w6 sc rest.
        s = w0 @ p @ w1 @ n @ w2 @ k @ w3 @ d @ w4 @ a @ w5 @ t @ w6 @ sc @ rest \<and>
        list_all is_space w0 \<and> digits p \<and> spaces w1 \<and> name_text n \<and>
        spaces w2 \<and> digits k \<and> spaces w3 \<and> digits d \<and> spaces w4 \<and> digits a \<and>
        spaces w5 \<and> digits t \<and> spaces w6 \<and> digits sc \<and>
        gs = [p, n, k, d, a, t, sc])"

text \<open>The record of a row with these pieces, and what parsing the row gives.\<close>

definition row_record ::
  "ustring \<Rightarrow> ustring \<Rightarrow> ustring \<Rightarrow> ustring \<Rightarrow> ustring \<Rightarrow> ustring \<Rightarrow> ustring \<Rightarrow> match_record" where
  "row_record p n k d a t sc =
     \<lparr>place = int (decimal p), nickname = n, kills = int (decimal k), deaths = int (decimal d),
      assists = int (decimal a), treasury = int (decimal t), score = int (decimal sc)\<rparr>"

definition row_result ::
  "ustring \<Rightarrow> ustring \<Rightarrow> ustring \<Rightarrow> ustring \<Rightarrow> ustring \<Rightarrow> ustring \<Rightarrow> ustring \<Rightarrow>
   py_error + match_record option" where
  "row_result p n k d a t sc =
     (if too_long p \<or> too_long k \<or> too_long d \<or> too_long a \<or> too_long t \<or> too_long sc
      then Inl ValueError else Inr (Some (row_record p n k d a t sc)))"

text \<open>
  The numbers among the groups of a match, and the lines on which \<^verbatim>\<open>int\<close> raises: the
  pattern matches and one of the six numbers is too long.
\<close>

definition numbers :: "ustring list \<Rightarrow> ustring list" where
  "numbers gs = (case gs of [p, n, k, d, a, t, sc] \<Rightarrow> [p, k, d, a, t, sc] | _ \<Rightarrow> [])"

definition overlong :: "ustring \<Rightarrow> bool" where
  "overlong line =
     (case match_seq row_pattern (strip line) of
        None \<Rightarrow> False
      | Some gs \<Rightarrow> list_ex too_long (numbers gs))"

text \<open>The records a line contributes to \<^verbatim>\<open>stats_for_this_image\<close>.\<close>

definition line_records :: "ustring \<Rightarrow> match_record list" where
  "line_records l = (case parse_line l of Inr (Some r) \<Rightarrow> [r] | _ \<Rightarrow> [])"

text \<open>The part of a file name before its first hyphen.\<close>

definition key_prefix :: "ustring \<Rightarrow> ustring" where
  "key_prefix filename = takeWhile (\<lambda>c. c \<noteq> Latin CHR ''-'') filename"

text \<open>The test of the loop over the grouping: active and enough games.\<close>

definition eligible :: "ustring set \<Rightarrow> int \<Rightarrow> ustring \<times> stat list \<Rightarrow> bool" where
  "eligible active MIN_GAMES p = (is_active active (fst p) \<and> MIN_GAMES \<le> int (length (snd p)))"

subsection \<open>Instances for examples\<close>

text \<open>
  Float operations on exact rationals, for the examples: no division overflows, and
  \<open>py_round\<close> rounds to the nearest integer, a tie to the even one, as \<^verbatim>\<open>round\<close> does.
\<close>

definition py_round :: "rat \<Rightarrow> int" where
  "py_round x =
     (let f = \<lfloor>x\<rfloor>; r = x - of_int f
      in if r < 1 / 2 then f else if 1 / 2 < r then f + 1 else if even f then f else f + 1)"

definition exact_ops :: "rat float_ops" where
  "exact_ops =
     \<lparr>int_div = (\<lambda>a b. Some (of_int a / of_int b)),
      float_div = (\<lambda>x y. x / y),
      round2 = (\<lambda>x. of_int (py_round (x * 100)) / 100),
      round0 = py_round,
      positive = (\<lambda>x. 0 < x)\<rparr>"

definition mk_record :: "string \<Rightarrow> int \<Rightarrow> int \<Rightarrow> match_record" where
  "mk_record nick k d =
     \<lparr>place = 1, nickname = asc nick, kills = k, deaths = d, assists = 0, treasury = 0, score = 0\<rparr>"

text \<open>Two spellings of one player, and a player without deaths.\<close>

definition example_store :: raw_store where
  "example_store =
     [(asc ''1-a.png'', [mk_record ''Vortex'' 10 2, mk_record ''Ghost'' 1 0]),
      (asc ''2-b.png'', [mk_record ''V0rtex'' 14 2, mk_record ''Ghost'' 0 0]),
      (asc ''3-c.png'', [mk_record ''Ghost'' 0 0])]"

text \<open>
  A loader that knows one document, fails to decode one that is cut short and raises
  \<^verbatim>\<open>UnicodeDecodeError\<close> on the byte \<open>0xFF\<close>, which is not UTF-8.
\<close>

definition example_load :: "string \<Rightarrow> raw_store load_result" where
  "example_load bytes =
     (if bytes = ''raw'' then Loaded example_store
      else if bytes = [CHR 0xFF] then Raised UnicodeDecodeError
      else JSONDecodeError)"

definition example_dump :: "rat averages \<Rightarrow> string" where
  "example_dump new_averages = replicate (length new_averages) CHR ''x''"

definition example_fs :: file_system where
  "example_fs = (\<lambda>path. if path = RAW_STATS_FILE then Present ''raw'' else Absent)"

text \<open>A grouping with two names close to each other, and a store of eleven matches.\<close>

definition example_groups :: "(ustring \<times> stat list) list" where
  "example_groups =
     [(asc ''Ghost'', [(1, 1, 0, 0, 0, 0)]), (asc ''Vortex'', [(1, 10, 2, 0, 0, 0)]),
      (asc ''Vortez'', [(1, 3, 3, 0, 0, 0)])]"

definition gating_store :: raw_store where
  "gating_store =
     [(asc ''1-old.png'', [mk_record ''ab'' 1 1, mk_record ''abcdef'' 7 7, mk_record ''Kilo99'' 9 9]),
      (asc ''2-m.png'', [mk_record ''abcd'' 2 1]), (asc ''3-m.png'', [mk_record ''abcd'' 2 1]),
      (asc ''4-m.png'', [mk_record ''abcd'' 2 1]), (asc ''5-m.png'', [mk_record ''abcd'' 2 1]),
      (asc ''6-m.png'', [mk_record ''abcd'' 2 1]), (asc ''7-m.png'', [mk_record ''abcd'' 2 1]),
      (asc ''8-m.png'', [mk_record ''abcd'' 2 1]), (asc ''9-m.png'', [mk_record ''abcd'' 2 1]),
      (asc ''10-m.png'', [mk_record ''abcd'' 2 1]), (asc ''11-m.png'', [mk_record ''abcd'' 2 1])]"

definition gating_recent :: "ustring list" where
  "gating_recent =
     [asc ''11-m.png'', asc ''10-m.png'', asc ''9-m.png'', asc ''8-m.png'', asc ''7-m.png'',
      asc ''6-m.png'', asc ''5-m.png'', asc ''4-m.png'', asc ''3-m.png'', asc ''2-m.png'']"

text \<open>A file name whose numeric prefix has 4301 digits, and a row whose score has.\<close>

definition long_number :: ustring where
  "long_number = replicate 4301 (Latin CHR ''1'')"

definition long_key_store :: raw_store where
  "long_key_store = [(long_number @ asc ''-a.png'', [mk_record ''ab'' 1 1])]"

definition long_row :: ustring where
  "long_row = asc ''1'' @ asc '' '' @ asc ''ab'' @ asc '' '' @ asc ''1'' @ asc '' '' @ asc ''2'' @
     asc '' '' @ asc ''3'' @ asc '' '' @ asc ''4'' @ asc '' '' @ long_number"

text \<open>A batch of two lines; the name of the first ends with the letter of code 233.\<close>

definition example_batch :: ustring where
  "example_batch =
     asc ''1 Jos'' @ Latin (CHR 0xE9) # asc '' 10 2 0 5 100'' @ Latin (CHR 0x0A) #
     asc ''total 7 players'' @ [Latin (CHR 0x0A)]"



section \<open>Properties\<close>

subsection \<open>The matcher\<close>

lemma first_some_None_iff: "first_some f xs = None \<longleftrightarrow> (\<forall>x\<in>set xs. f x = None)"
  by (induction xs) (auto split: option.splits)

lemma first_some_SomeD: "first_some f xs = Some y \<Longrightarrow> \<exists>x\<in>set xs. f x = Some y"
  by (induction xs) (auto split: option.splits)

lemma first_some_append:
  "first_some f (xs @ ys) = (case first_some f xs of Some y \<Rightarrow> Some y | None \<Rightarrow> first_some f ys)"
  by (induction xs) (auto split: option.splits)

lemma set_cands: "set (cands q n) = {k. (if q = Star then 0 else 1) \<le> k \<and> k \<le> n}"
  by (cases q) auto

lemma first_some_greedy:
  assumes "lo \<le> n" "f n = Some y"
  shows "first_some f (rev [lo..<Suc n]) = Some y"
  using assms by simp

lemma first_some_lazy:
  assumes "1 \<le> k" "k \<le> n" "f k = Some y" "\<forall>j. 1 \<le> j \<and> j < k \<longrightarrow> f j = None"
  shows "first_some f [1..<Suc n] = Some y"
proof -
  have split: "[1..<Suc n] = [1..<k] @ k # [Suc k..<Suc n]"
    using assms(1,2) by (metis le_imp_less_Suc upt_conv_Cons upt_add_eq_append le_add_diff_inverse less_or_eq_imp_le)
  have "first_some f [1..<k] = None"
    using assms(4) by (simp add: first_some_None_iff)
  then have "first_some f ([1..<k] @ k # [Suc k..<Suc n]) = Some y"
    by (simp add: first_some_append assms(3))
  then show ?thesis
    by (simp only: split)
qed

lemma run_token:
  assumes "\<forall>x\<in>set tok. in_cls c x" "rest = [] \<or> \<not> in_cls c (hd rest)"
  shows "run c (tok @ rest) = length tok"
proof -
  have "takeWhile (in_cls c) rest = []"
    using assms(2) by (cases rest) auto
  then show ?thesis
    using assms(1) by (simp add: run_def)
qed

lemma run_ge_token:
  assumes "\<forall>x\<in>set tok. in_cls c x"
  shows "length tok \<le> run c (tok @ rest)"
  using assms by (simp add: run_def)

lemma run_zero: "s = [] \<or> \<not> in_cls c (hd s) \<Longrightarrow> run c s = 0"
  by (cases s) (auto simp: run_def)

lemma match_star_skip:
  "s = [] \<or> \<not> in_cls c (hd s) \<Longrightarrow> match_seq ((c, Star, False) # es) s = match_seq es s"
  by (simp add: run_zero split: option.splits)

lemma match_plus_fail:
  "s = [] \<or> \<not> in_cls c (hd s) \<Longrightarrow> q \<noteq> Star \<Longrightarrow> match_seq ((c, q, cap) # es) s = None"
  by (cases q) (simp_all add: run_zero)

lemma match_greedy:
  assumes "tok \<noteq> []" "\<forall>x\<in>set tok. in_cls c x" "rest = [] \<or> \<not> in_cls c (hd rest)"
    and "match_seq es rest = Some gs"
  shows "match_seq ((c, Plus, cap) # es) (tok @ rest) = Some (if cap then tok # gs else gs)"
proof -
  have r: "run c (tok @ rest) = length tok"
    using assms(2,3) by (rule run_token)
  have "1 \<le> length tok"
    using assms(1) by (cases tok) auto
  then show ?thesis
    using assms(4) by (simp add: r first_some_greedy del: upt_Suc)
qed

lemma match_lazy:
  assumes "tok \<noteq> []" "\<forall>x\<in>set tok. in_cls c x"
    and "match_seq es rest = Some gs"
    and "\<forall>j. 1 \<le> j \<and> j < length tok \<longrightarrow> match_seq es (drop j tok @ rest) = None"
  shows "match_seq ((c, PlusLazy, True) # es) (tok @ rest) = Some (tok # gs)"
proof -
  let ?f = "\<lambda>k. map_option (\<lambda>gs. take k (tok @ rest) # gs) (match_seq es (drop k (tok @ rest)))"
  have "1 \<le> length tok"
    using assms(1) by (cases tok) auto
  moreover have "length tok \<le> run c (tok @ rest)"
    using assms(2) by (rule run_ge_token)
  moreover have "?f (length tok) = Some (tok # gs)"
    using assms(3) by simp
  moreover have "\<forall>j. 1 \<le> j \<and> j < length tok \<longrightarrow> ?f j = None"
    using assms(4) by simp
  ultimately have "first_some ?f [1..<Suc (run c (tok @ rest))] = Some (tok # gs)"
    by (rule first_some_lazy)
  then show ?thesis by (simp del: upt_Suc)
qed

lemma space_not_digit: "is_space c \<Longrightarrow> \<not> is_digit c"
  by (cases c) (auto simp: Let_def split: uclass.splits)

lemma int_space_not_digit: "is_int_space c \<Longrightarrow> \<not> is_digit c"
  by (cases c) (auto simp: Let_def split: uclass.splits)

lemma digit_not_sign: "is_digit c \<Longrightarrow> c \<noteq> Latin CHR ''-'' \<and> c \<noteq> Latin CHR ''+''"
  by (cases c) (auto simp: Let_def)

lemma list_all_run:
  assumes "k \<le> run c s"
  shows "list_all (in_cls c) (take k s)" "k \<le> length s"
proof -
  have "take k (takeWhile (in_cls c) s @ dropWhile (in_cls c) s) = take k (takeWhile (in_cls c) s)"
    using assms unfolding run_def by (simp only: take_append) simp
  then have "take k s = take k (takeWhile (in_cls c) s)"
    by simp
  then have "set (take k s) \<subseteq> set (takeWhile (in_cls c) s)"
    by (simp add: set_take_subset)
  then show "list_all (in_cls c) (take k s)"
    by (auto simp: list_all_iff dest: set_takeWhileD)
  show "k \<le> length s"
    using assms unfolding run_def by (meson le_trans length_takeWhile_le)
qed

lemma match_seq_fits: "match_seq p s = Some gs \<Longrightarrow> fits p s gs"
proof (induction p s arbitrary: gs rule: match_seq.induct)
  case (1 s)
  then show ?case by simp
next
  case (2 c q captured es s)
  from "2.prems" obtain k gs' where k: "k \<in> set (cands q (run c s))"
    and m: "match_seq es (drop k s) = Some gs'"
    and g: "gs = (if captured then take k s # gs' else gs')"
    by (auto dest!: first_some_SomeD)
  have kr: "k \<le> run c s" and kq: "q = Star \<or> 1 \<le> k"
    using k by (auto simp: set_cands split: if_splits)
  have f: "fits es (drop k s) gs'"
    using "2.IH" m by blast
  have "take k s \<noteq> []" if "1 \<le> k"
    using that list_all_run(2)[OF kr] by (cases s) auto
  then have ne: "q = Star \<or> take k s \<noteq> []"
    using kq by blast
  have "s = take k s @ drop k s \<and> list_all (in_cls c) (take k s) \<and>
        (q = Star \<or> take k s \<noteq> []) \<and>
        (if captured then \<exists>gs''. gs = take k s # gs'' \<and> fits es (drop k s) gs''
         else fits es (drop k s) gs)"
    using list_all_run(1)[OF kr] ne f g by simp
  then show ?case
    unfolding fits.simps by blast
qed

lemma fits_match_seq: "fits p s gs \<Longrightarrow> match_seq p s \<noteq> None"
proof (induction p s arbitrary: gs rule: match_seq.induct)
  case (1 s)
  then show ?case by simp
next
  case (2 c q captured es s)
  from "2.prems" obtain u v gs' where s: "s = u @ v" and u: "list_all (in_cls c) u"
    and q: "q = Star \<or> u \<noteq> []" and f: "fits es v gs'"
    by (auto split: if_splits)
  have "length u \<le> run c s"
    using u unfolding s by (intro run_ge_token) (simp add: list_all_iff)
  moreover have "q = Star \<or> 1 \<le> length u"
    using q by (cases u) auto
  ultimately have k: "length u \<in> set (cands q (run c s))"
    by (auto simp: set_cands)
  have "fits es (drop (length u) s) gs'"
    using f by (simp add: s)
  then have "match_seq es (drop (length u) s) \<noteq> None"
    by (rule "2.IH")
  then show ?case
    using k by (auto simp: first_some_None_iff)
qed

lemma match_seq_None_iff:
  "match_seq ((c, q, cap) # es) s = None \<longleftrightarrow>
     (\<forall>k\<in>set (cands q (run c s)). match_seq es (drop k s) = None)"
  by (simp add: first_some_None_iff)

declare match_seq.simps(2) [simp del]

lemma strip_with_surround:
  assumes "list_all P lead" "list_all P trail"
    and "body \<noteq> []" "\<not> P (hd body)" "\<not> P (last body)"
  shows "strip_with P (lead @ body @ trail) = body"
proof -
  have a: "dropWhile P (lead @ body @ trail) = body @ trail"
    using assms(1,3,4) by (cases body) (auto simp: list_all_iff)
  have "dropWhile P (rev trail @ rev body) = dropWhile P (rev body)"
    using assms(2) by (intro dropWhile_append2) (simp add: list_all_iff)
  also have "\<dots> = rev body"
    using assms(3,5) by (cases body rule: rev_cases) auto
  finally have "dropWhile P (rev trail @ rev body) = rev body" .
  then show ?thesis
    by (simp add: strip_with_def a)
qed

lemma strip_surround:
  assumes "list_all is_space lead" "list_all is_space trail"
    and "body \<noteq> []" "\<not> is_space (hd body)" "\<not> is_space (last body)"
  shows "strip (lead @ body @ trail) = body"
  unfolding strip_def using assms by (rule strip_with_surround)

lemma strip_id: "s \<noteq> [] \<Longrightarrow> \<not> is_space (hd s) \<Longrightarrow> \<not> is_space (last s) \<Longrightarrow> strip s = s"
  using strip_surround [of "[]" "[]" s] by simp

lemma literal_rest_digits: "list_all is_digit cs \<Longrightarrow> literal_rest cs = Some cs"
  by (induction cs) auto

lemma py_int_digits:
  assumes "digits s"
  shows "py_int s = (if too_long s then Inl ValueError else Inr (int (decimal s)))"
proof -
  from assms obtain c cs where s: "s = c # cs" and c: "is_digit c" and cs: "list_all is_digit cs"
    by (cases s) (auto simp: digits_def)
  have "s \<noteq> []" "\<forall>x\<in>set s. is_digit x"
    using assms by (simp_all add: digits_def list_all_iff)
  then have "is_digit (hd s)" "is_digit (last s)"
    by simp_all
  then have "\<not> is_int_space (hd s)" "\<not> is_int_space (last s)"
    using int_space_not_digit by blast+
  then have "strip_with is_int_space ([] @ s @ []) = s"
    using \<open>s \<noteq> []\<close> by (intro strip_with_surround) simp_all
  then have st: "strip_with is_int_space (c # cs) = c # cs"
    by (simp add: s)
  have lit: "int_literal (c # cs) = Some (c # cs)"
    using c by (simp add: int_literal_def literal_rest_digits [OF cs])
  show ?thesis
    using digit_not_sign [OF c]
    by (simp add: py_int_def st s int_value_def lit too_long_def)
qed

lemma py_int_error: "py_int s = Inl e \<Longrightarrow> e = ValueError"
  by (auto simp: py_int_def int_value_def split: list.splits option.splits if_splits)

lemma space_digit_fail:
  assumes "list_all is_space ws"
    and "rem = [] \<or> (\<not> is_space (hd rem) \<and> \<not> is_digit (hd rem))"
  shows "match_seq ((Space, Plus, b) # (Digit, Plus, b') # es) (ws @ rem) = None"
proof -
  have r: "run Space (ws @ rem) = length ws"
    using assms by (intro run_token) (auto simp: list_all_iff)
  have fail: "match_seq ((Digit, Plus, b') # es) (drop k (ws @ rem)) = None"
    if "k \<le> length ws" for k
  proof (rule match_plus_fail)
    show "drop k (ws @ rem) = [] \<or> \<not> in_cls Digit (hd (drop k (ws @ rem)))"
    proof (cases "k < length ws")
      case True
      then have "hd (drop k (ws @ rem)) = ws ! k"
        by (simp add: hd_drop_conv_nth nth_append)
      moreover have "is_space (ws ! k)"
        using assms(1) True by (simp add: list_all_length)
      ultimately show ?thesis
        using space_not_digit by simp
    next
      case False
      then have "drop k (ws @ rem) = rem"
        using that by simp
      then show ?thesis
        using assms(2) by auto
    qed
  qed simp
  show ?thesis
    unfolding match_seq_None_iff [of Space] r
  proof
    fix k
    assume "k \<in> set (cands Plus (length ws))"
    then have "k \<le> length ws"
      by auto
    then show "match_seq ((Digit, Plus, b') # es) (drop k (ws @ rem)) = None"
      by (rule fail)
  qed
qed

lemma dropWhile_space_not_digit:
  "\<not> space_then_digit t \<Longrightarrow> is_space (hd t) \<Longrightarrow> dropWhile is_space t \<noteq> [] \<Longrightarrow>
   \<not> is_digit (hd (dropWhile is_space t))"
  by (induction t rule: space_then_digit.induct) (auto split: if_splits)

lemma name_suffix_fail:
  assumes "t \<noteq> []" "\<not> is_space (last t)" "\<not> space_then_digit t"
  shows "match_seq ((Space, Plus, b) # (Digit, Plus, b') # es) (t @ rest) = None"
proof (cases "is_space (hd t)")
  case False
  then show ?thesis
    using assms(1) by (intro match_plus_fail) auto
next
  case True
  let ?ws = "takeWhile is_space t" and ?rem = "dropWhile is_space t"
  have rem: "?rem \<noteq> []"
  proof
    assume "?rem = []"
    then have "\<forall>x\<in>set t. is_space x"
      by (simp add: dropWhile_eq_Nil_conv)
    then show False
      using assms(1,2) last_in_set by blast
  qed
  have "\<not> is_space (hd ?rem)"
    using rem by (rule hd_dropWhile)
  moreover have "\<not> is_digit (hd ?rem)"
    using assms(3) True rem by (rule dropWhile_space_not_digit)
  moreover have "list_all is_space ?ws"
    by (auto simp: list_all_iff dest: set_takeWhileD)
  ultimately have "match_seq ((Space, Plus, b) # (Digit, Plus, b') # es) (?ws @ (?rem @ rest)) = None"
    using rem by (intro space_digit_fail) auto
  then show ?thesis
    by (simp only: append_assoc [symmetric] takeWhile_dropWhile_id)
qed

lemma space_then_digit_tl: "\<not> space_then_digit (x # xs) \<Longrightarrow> \<not> space_then_digit xs"
  by (cases xs) auto

lemma space_then_digit_drop: "\<not> space_then_digit t \<Longrightarrow> \<not> space_then_digit (drop j t)"
proof (induction j arbitrary: t)
  case 0
  then show ?case by simp
next
  case (Suc j)
  then show ?case
    by (cases t) (auto dest: space_then_digit_tl)
qed

lemma match_space_digits:
  assumes "spaces w" "digits tok" "rest = [] \<or> \<not> is_digit (hd rest)"
    and "match_seq es rest = Some gs"
  shows "match_seq ((Space, Plus, False) # (Digit, Plus, True) # es) (w @ tok @ rest) = Some (tok # gs)"
proof -
  have "match_seq ((Digit, Plus, True) # es) (tok @ rest) = Some (tok # gs)"
    using assms(2,3,4) match_greedy [of tok Digit rest es gs True]
    by (simp add: digits_def list_all_iff)
  moreover have "\<not> is_space (hd (tok @ rest))"
    using assms(2) space_not_digit by (cases tok) (auto simp: digits_def)
  ultimately show ?thesis
    using assms(1) match_greedy [of w Space "tok @ rest" "(Digit, Plus, True) # es" "tok # gs" False]
    by (simp add: spaces_def list_all_iff)
qed

lemma spaces_hd: "spaces w \<Longrightarrow> \<not> is_digit (hd (w @ r))"
  using space_not_digit by (cases w) (auto simp: spaces_def)

lemma match_row:
  assumes "digits p" "spaces w1"
    and "name_text n" "\<not> is_space (hd n)" "\<not> is_space (last n)" "\<not> space_then_digit n"
    and "spaces w2" "digits k" "spaces w3" "digits d" "spaces w4" "digits a"
    and "spaces w5" "digits t" "spaces w6" "digits sc"
  shows "match_seq row_pattern (p @ w1 @ n @ w2 @ k @ w3 @ d @ w4 @ a @ w5 @ t @ w6 @ sc)
         = Some [p, n, k, d, a, t, sc]"
proof -
  let ?tail = "[(Space, Plus, False), (Digit, Plus, True),
      (Space, Plus, False), (Digit, Plus, True),
      (Space, Plus, False), (Digit, Plus, True),
      (Space, Plus, False), (Digit, Plus, True),
      (Space, Plus, False), (Digit, Plus, True)]"
  have m5: "match_seq [(Space, Plus, False), (Digit, Plus, True)] (w6 @ sc @ []) = Some [sc]"
    by (rule match_space_digits [OF assms(15) assms(16)]) simp_all
  have m4: "match_seq ((Space, Plus, False) # (Digit, Plus, True) # [(Space, Plus, False), (Digit, Plus, True)])
              (w5 @ t @ (w6 @ sc @ [])) = Some [t, sc]"
    by (rule match_space_digits [OF assms(13) assms(14) _ m5]) (simp add: spaces_hd [OF assms(15)])
  have m3: "match_seq ((Space, Plus, False) # (Digit, Plus, True) #
                [(Space, Plus, False), (Digit, Plus, True), (Space, Plus, False), (Digit, Plus, True)])
              (w4 @ a @ (w5 @ t @ (w6 @ sc @ []))) = Some [a, t, sc]"
    by (rule match_space_digits [OF assms(11) assms(12) _ m4]) (simp add: spaces_hd [OF assms(13)])
  have m2: "match_seq ((Space, Plus, False) # (Digit, Plus, True) #
                [(Space, Plus, False), (Digit, Plus, True), (Space, Plus, False), (Digit, Plus, True),
                 (Space, Plus, False), (Digit, Plus, True)])
              (w3 @ d @ (w4 @ a @ (w5 @ t @ (w6 @ sc @ [])))) = Some [d, a, t, sc]"
    by (rule match_space_digits [OF assms(9) assms(10) _ m3]) (simp add: spaces_hd [OF assms(11)])
  let ?rest = "w2 @ k @ (w3 @ d @ (w4 @ a @ (w5 @ t @ (w6 @ sc @ []))))"
  have m1: "match_seq ?tail ?rest = Some [k, d, a, t, sc]"
    by (rule match_space_digits [OF assms(7) assms(8) _ m2]) (simp add: spaces_hd [OF assms(9)])
  have fail: "\<forall>j. 1 \<le> j \<and> j < length n \<longrightarrow> match_seq ?tail (drop j n @ ?rest) = None"
  proof (intro allI impI)
    fix j
    assume j: "1 \<le> j \<and> j < length n"
    then have "drop j n \<noteq> []" "\<not> is_space (last (drop j n))"
      using assms(5) by simp_all
    then show "match_seq ?tail (drop j n @ ?rest) = None"
      using space_then_digit_drop [OF assms(6)] by (rule name_suffix_fail)
  qed
  have n: "n \<noteq> []" "\<forall>x\<in>set n. in_cls NameChar x"
    using assms(3) by (simp_all add: name_text_def list_all_iff)
  have mn: "match_seq ((NameChar, PlusLazy, True) # ?tail) (n @ ?rest) = Some [n, k, d, a, t, sc]"
    using n m1 fail by (rule match_lazy)
  have w1: "w1 \<noteq> []" "\<forall>x\<in>set w1. in_cls Space x"
    using assms(2) by (simp_all add: spaces_def list_all_iff)
  have "n @ ?rest = [] \<or> \<not> in_cls Space (hd (n @ ?rest))"
    using n(1) assms(4) by simp
  from match_greedy [OF w1 this mn, of False]
  have mw: "match_seq ((Space, Plus, False) # (NameChar, PlusLazy, True) # ?tail) (w1 @ n @ ?rest)
            = Some [n, k, d, a, t, sc]"
    by simp
  have p: "p \<noteq> []" "\<forall>x\<in>set p. in_cls Digit x"
    using assms(1) by (simp_all add: digits_def list_all_iff)
  have "(w1 @ n @ ?rest) = [] \<or> \<not> in_cls Digit (hd (w1 @ n @ ?rest))"
    using spaces_hd [OF assms(2)] by simp
  from match_greedy [OF p this mw, of True]
  have mp: "match_seq ((Digit, Plus, True) # (Space, Plus, False) # (NameChar, PlusLazy, True) # ?tail)
              (p @ w1 @ n @ ?rest) = Some [p, n, k, d, a, t, sc]"
    by simp
  have "\<not> in_cls Space (hd (p @ w1 @ n @ ?rest))"
    using p space_not_digit by (cases p) auto
  then have "match_seq ((Space, Star, False) # (Digit, Plus, True) # (Space, Plus, False) #
                 (NameChar, PlusLazy, True) # ?tail) (p @ w1 @ n @ ?rest) = Some [p, n, k, d, a, t, sc]"
    using mp by (simp add: match_star_skip)
  then show ?thesis
    by (simp add: row_pattern_def)
qed


lemma parse_line_groups:
  assumes "match_seq row_pattern (strip line) = Some [p, n, k, d, a, t, sc]"
    and "digits p" "digits k" "digits d" "digits a" "digits t" "digits sc"
  shows "parse_line line = row_result p (strip n) k d a t sc"
  unfolding parse_line_def assms(1) row_result_def row_record_def
  by (simp add: py_int_digits assms(2-7))


lemma fits_plain:
  assumes "fits ((c, q, False) # es) s gs"
  obtains u v where "s = u @ v" "list_all (in_cls c) u" "q = Star \<or> u \<noteq> []" "fits es v gs"
  using assms by auto

lemma fits_group:
  assumes "fits ((c, q, True) # es) s gs"
  obtains u v gs' where "s = u @ v" "list_all (in_cls c) u" "q = Star \<or> u \<noteq> []"
    "gs = u # gs'" "fits es v gs'"
  using assms by auto

lemma fits_space_digits:
  assumes "fits ((Space, Plus, False) # (Digit, Plus, True) # es) s gs"
  obtains w tok v gs' where "s = w @ tok @ v" "spaces w" "digits tok" "gs = tok # gs'" "fits es v gs'"
proof -
  from assms obtain w v0 where 1: "s = w @ v0" "list_all (in_cls Space) w" "w \<noteq> []"
    and f: "fits ((Digit, Plus, True) # es) v0 gs"
    by (rule fits_plain) simp
  from f obtain tok v gs' where 2: "v0 = tok @ v" "list_all (in_cls Digit) tok" "tok \<noteq> []"
    "gs = tok # gs'" "fits es v gs'"
    by (rule fits_group) simp
  have "s = w @ tok @ v" "spaces w" "digits tok"
    using 1 2 by (simp_all add: spaces_def digits_def list_all_iff)
  then show ?thesis
    using 2(4,5) that by blast
qed

lemma fits_row_shape:
  assumes "fits row_pattern s gs"
  shows "row_shape s gs"
proof -
  from assms obtain w0 v0 where 0: "s = w0 @ v0" "list_all (in_cls Space) w0"
    and f0: "fits (tl row_pattern) v0 gs"
    unfolding row_pattern_def list.sel by (rule fits_plain)
  from f0 obtain p v1 g1 where 1: "v0 = p @ v1" "list_all (in_cls Digit) p" "p \<noteq> []" "gs = p # g1"
    and f1: "fits (tl (tl row_pattern)) v1 g1"
    unfolding row_pattern_def list.sel by (rule fits_group) simp
  from f1 obtain w1 v2 where 2: "v1 = w1 @ v2" "list_all (in_cls Space) w1" "w1 \<noteq> []"
    and f2: "fits (tl (tl (tl row_pattern))) v2 g1"
    unfolding row_pattern_def list.sel by (rule fits_plain) simp
  from f2 obtain n v3 g2 where 3: "v2 = n @ v3" "list_all (in_cls NameChar) n" "n \<noteq> []" "g1 = n # g2"
    and f3: "fits (tl (tl (tl (tl row_pattern)))) v3 g2"
    unfolding row_pattern_def list.sel by (rule fits_group) simp
  from f3 obtain w2 k v4 g3 where 4: "v3 = w2 @ k @ v4" "spaces w2" "digits k" "g2 = k # g3"
    and f4: "fits (tl (tl (tl (tl (tl (tl row_pattern)))))) v4 g3"
    unfolding row_pattern_def list.sel by (rule fits_space_digits)
  from f4 obtain w3 d v5 g4 where 5: "v4 = w3 @ d @ v5" "spaces w3" "digits d" "g3 = d # g4"
    and f5: "fits (tl (tl (tl (tl (tl (tl (tl (tl row_pattern)))))))) v5 g4"
    unfolding row_pattern_def list.sel by (rule fits_space_digits)
  from f5 obtain w4 a v6 g5 where 6: "v5 = w4 @ a @ v6" "spaces w4" "digits a" "g4 = a # g5"
    and f6: "fits (tl (tl (tl (tl (tl (tl (tl (tl (tl (tl row_pattern)))))))))) v6 g5"
    unfolding row_pattern_def list.sel by (rule fits_space_digits)
  from f6 obtain w5 t v7 g6 where 7: "v6 = w5 @ t @ v7" "spaces w5" "digits t" "g5 = t # g6"
    and f7: "fits (tl (tl (tl (tl (tl (tl (tl (tl (tl (tl (tl (tl row_pattern)))))))))))) v7 g6"
    unfolding row_pattern_def list.sel by (rule fits_space_digits)
  from f7 obtain w6 sc rest g7 where 8: "v7 = w6 @ sc @ rest" "spaces w6" "digits sc" "g6 = sc # g7"
    and f8: "fits [] rest g7"
    unfolding row_pattern_def list.sel by (rule fits_space_digits)
  have eq: "s = w0 @ p @ w1 @ n @ w2 @ k @ w3 @ d @ w4 @ a @ w5 @ t @ w6 @ sc @ rest"
    by (simp add: 0 1 2 3 4 5 6 7 8)
  have gs: "gs = [p, n, k, d, a, t, sc]"
    using f8 by (simp add: 1 3 4 5 6 7 8)
  have cl: "list_all is_space w0" "digits p" "spaces w1" "name_text n"
    using 0 1 2 3 by (simp_all add: digits_def spaces_def name_text_def list_all_iff)
  show ?thesis
    unfolding row_shape_def
    using eq gs cl 4(2,3) 5(2,3) 6(2,3) 7(2,3) 8(2,3) by blast
qed

lemma fits_plain_I:
  "list_all (in_cls c) u \<Longrightarrow> q = Star \<or> u \<noteq> [] \<Longrightarrow> fits es v gs \<Longrightarrow>
   fits ((c, q, False) # es) (u @ v) gs"
  by auto

lemma fits_group_I:
  "list_all (in_cls c) u \<Longrightarrow> q = Star \<or> u \<noteq> [] \<Longrightarrow> fits es v gs \<Longrightarrow>
   fits ((c, q, True) # es) (u @ v) (u # gs)"
  by auto

lemma fits_space_digits_I:
  assumes "spaces w" "digits tok" "fits es v gs"
  shows "fits ((Space, Plus, False) # (Digit, Plus, True) # es) (w @ tok @ v) (tok # gs)"
proof -
  have "list_all (in_cls Digit) tok" "Plus = Star \<or> tok \<noteq> []"
    using assms(2) by (simp_all add: digits_def list_all_iff)
  then have "fits ((Digit, Plus, True) # es) (tok @ v) (tok # gs)"
    using assms(3) by (rule fits_group_I)
  moreover have "list_all (in_cls Space) w" "Plus = Star \<or> w \<noteq> []"
    using assms(1) by (simp_all add: spaces_def list_all_iff)
  ultimately show ?thesis
    by (intro fits_plain_I)
qed

lemma row_shape_fits:
  assumes "row_shape s gs"
  shows "fits row_pattern s gs"
proof -
  from assms obtain w0 p w1 n w2 k w3 d w4 a w5 t w6 sc rest where
    eq: "s = w0 @ p @ w1 @ n @ w2 @ k @ w3 @ d @ w4 @ a @ w5 @ t @ w6 @ sc @ rest"
    and cl: "list_all is_space w0" "digits p" "spaces w1" "name_text n"
      "spaces w2" "digits k" "spaces w3" "digits d" "spaces w4" "digits a"
      "spaces w5" "digits t" "spaces w6" "digits sc"
    and gs: "gs = [p, n, k, d, a, t, sc]"
    unfolding row_shape_def by blast
  have "fits [] rest []"
    by simp
  note t = fits_space_digits_I [OF cl(5,6) fits_space_digits_I [OF cl(7,8) fits_space_digits_I
      [OF cl(9,10) fits_space_digits_I [OF cl(11,12) fits_space_digits_I [OF cl(13,14) this]]]]]
  have n: "list_all (in_cls NameChar) n" "PlusLazy = Star \<or> n \<noteq> []"
    using cl(4) by (simp_all add: name_text_def)
  have w1: "list_all (in_cls Space) w1" "Plus = Star \<or> w1 \<noteq> []"
    using cl(3) by (simp_all add: spaces_def list_all_iff)
  have p: "list_all (in_cls Digit) p" "Plus = Star \<or> p \<noteq> []"
    using cl(2) by (simp_all add: digits_def list_all_iff)
  have w0: "list_all (in_cls Space) w0" "Star = Star \<or> w0 \<noteq> []"
    using cl(1) by (simp_all add: list_all_iff)
  show ?thesis
    unfolding row_pattern_def eq gs
    by (rule fits_plain_I [OF w0 fits_group_I [OF p fits_plain_I [OF w1 fits_group_I [OF n t]]]])
qed

declare fits.simps(2) [simp del]

lemma match_row_iff: "(\<exists>gs. match_seq row_pattern s = Some gs) \<longleftrightarrow> (\<exists>gs. row_shape s gs)"
  using fits_match_seq match_seq_fits fits_row_shape row_shape_fits by blast

lemma match_row_shape: "match_seq row_pattern s = Some gs \<Longrightarrow> row_shape s gs"
  by (simp add: match_seq_fits fits_row_shape)

lemma parse_line_shape:
  assumes "match_seq row_pattern (strip line) = Some gs"
  shows "\<exists>p n k d a t sc. gs = [p, n, k, d, a, t, sc] \<and> row_shape (strip line) [p, n, k, d, a, t, sc] \<and>
     parse_line line = row_result p (strip n) k d a t sc"
proof -
  have rs: "row_shape (strip line) gs"
    using assms by (rule match_row_shape)
  then obtain p n k d a t sc where gs: "gs = [p, n, k, d, a, t, sc]"
    and dg: "digits p" "digits k" "digits d" "digits a" "digits t" "digits sc"
    unfolding row_shape_def by blast
  have "parse_line line = row_result p (strip n) k d a t sc"
    using assms dg unfolding gs by (rule parse_line_groups)
  then show ?thesis
    using rs gs by blast
qed

lemma parse_line_None_iff:
  "parse_line line = Inr None \<longleftrightarrow> \<not> (\<exists>gs. row_shape (strip line) gs)"
proof (cases "match_seq row_pattern (strip line)")
  case None
  then have "\<not> (\<exists>gs. row_shape (strip line) gs)"
    using match_row_iff [of "strip line"] by simp
  then show ?thesis
    using None by (simp add: parse_line_def)
next
  case (Some gs)
  then have "\<exists>gs. row_shape (strip line) gs"
    using match_row_iff [of "strip line"] by blast
  then show ?thesis
    using parse_line_shape [OF Some] by (auto simp: row_result_def split: if_splits)
qed

lemma parse_line_isl:
  "isl (parse_line line) \<longleftrightarrow> overlong line"
proof (cases "match_seq row_pattern (strip line)")
  case None
  then show ?thesis
    by (simp add: parse_line_def overlong_def)
next
  case (Some gs)
  from parse_line_shape [OF Some] obtain p n k d a t sc where
    "gs = [p, n, k, d, a, t, sc]" "parse_line line = row_result p (strip n) k d a t sc"
    by blast
  then show ?thesis
    using Some by (simp add: overlong_def numbers_def row_result_def)
qed

lemma parse_line_error: "parse_line line = Inl e \<Longrightarrow> e = ValueError \<and> overlong line"
proof -
  assume e: "parse_line line = Inl e"
  then have o: "overlong line"
    using parse_line_isl [of line] by simp
  then obtain gs where "match_seq row_pattern (strip line) = Some gs"
    by (auto simp: overlong_def split: option.splits)
  from parse_line_shape [OF this] e have "e = ValueError"
    by (auto simp: row_result_def split: if_splits)
  then show ?thesis
    using o by simp
qed


subsection \<open>Storing a batch, reading and writing the files\<close>

lemma parse_lines_eq:
  "parse_lines ls acc =
     (if \<exists>l\<in>set ls. overlong l then Inl ValueError else Inr (acc @ concat (map line_records ls)))"
proof (induction ls arbitrary: acc)
  case Nil
  then show ?case by simp
next
  case (Cons l ls)
  show ?case
  proof (cases "parse_line l")
    case (Inl e)
    then show ?thesis
      using parse_line_error [OF Inl] by simp
  next
    case (Inr r)
    then have no: "\<not> overlong l"
      using parse_line_isl [of l] by simp
    have lr: "line_records l = (case r of None \<Rightarrow> [] | Some x \<Rightarrow> [x])"
      using Inr by (simp add: line_records_def split: option.splits)
    show ?thesis
      using Inr no by (cases r) (simp_all add: Cons.IH lr)
  qed
qed

lemma line_records_empty_iff:
  "\<not> overlong l \<Longrightarrow> line_records l = [] \<longleftrightarrow> match_seq row_pattern (strip l) = None"
proof (cases "match_seq row_pattern (strip l)")
  case None
  then show ?thesis by (simp add: line_records_def parse_line_def)
next
  case (Some gs)
  assume "\<not> overlong l"
  then have "\<not> isl (parse_line l)"
    by (simp add: parse_line_isl)
  moreover have "parse_line l \<noteq> Inr None"
    using Some match_row_iff [of "strip l"] by (auto simp: parse_line_None_iff)
  ultimately show ?thesis
    using Some by (cases "parse_line l") (auto simp: line_records_def split: option.splits)
qed

lemma length_line_records:
  "\<not> overlong l \<Longrightarrow>
   length (line_records l) = (if match_seq row_pattern (strip l) = None then 0 else 1)"
  using line_records_empty_iff [of l]
  by (auto simp: line_records_def split: sum.splits option.splits)

lemma length_concat_line_records:
  "\<forall>l\<in>set ls. \<not> overlong l \<Longrightarrow>
   length (concat (map line_records ls)) =
   length (filter (\<lambda>l. match_seq row_pattern (strip l) \<noteq> None) ls)"
  by (induction ls) (simp_all add: length_line_records)

lemma split_lines_nonempty: "split_lines s \<noteq> []"
  by (induction s) (auto split: list.splits)

lemma split_lines_single: "Latin (CHR 0x0A) \<notin> set s \<Longrightarrow> split_lines s = [s]"
  by (induction s) auto

lemma split_lines_append:
  "Latin (CHR 0x0A) \<notin> set a \<Longrightarrow> split_lines (a @ Latin (CHR 0x0A) # b) = a # split_lines b"
  by (induction a) auto

lemma length_strip_with: "length (strip_with P s) \<le> length s"
proof -
  have "length (dropWhile P (rev (dropWhile P s))) \<le> length (rev (dropWhile P s))"
    by (rule length_dropWhile_le)
  also have "\<dots> \<le> length s"
    by (simp add: length_dropWhile_le)
  finally show ?thesis
    by (simp add: strip_with_def)
qed

lemma overlong_length:
  assumes "overlong l"
  shows "MAX_STR_DIGITS < length l"
proof -
  from assms obtain gs where m: "match_seq row_pattern (strip l) = Some gs"
    and ex: "list_ex too_long (numbers gs)"
    by (auto simp: overlong_def split: option.splits)
  from match_row_shape [OF m] obtain w0 p w1 n w2 k w3 d w4 a w5 t w6 sc rest where
    eq: "strip l = w0 @ p @ w1 @ n @ w2 @ k @ w3 @ d @ w4 @ a @ w5 @ t @ w6 @ sc @ rest"
    and gs: "gs = [p, n, k, d, a, t, sc]"
    unfolding row_shape_def by blast
  have len: "length (strip l) =
      length w0 + length p + length w1 + length n + length w2 + length k + length w3 + length d +
      length w4 + length a + length w5 + length t + length w6 + length sc + length rest"
    by (simp add: eq)
  have "too_long p \<or> too_long k \<or> too_long d \<or> too_long a \<or> too_long t \<or> too_long sc"
    using ex by (simp add: gs numbers_def)
  then have "MAX_STR_DIGITS < length (strip l)"
    unfolding too_long_def len by linarith
  then show ?thesis
    using length_strip_with [of is_space l] by (simp add: strip_def)
qed

text \<open>
  Claim C7, as the code has it. If on some line the pattern matches with a number of more
  than 4300 digits, \<^verbatim>\<open>int\<close> raises \<^verbatim>\<open>ValueError\<close> and the function returns nothing and
  stores nothing; no line of at most 4300 characters is such a line. Otherwise the function
  returns the number of lines that match the pattern; if at least one line matched, the
  resulting dictionary maps the match id to the list of parsed records; if no line matched,
  the dictionary is returned as it was; no key other than the match id changes its value.
  The lines are the pieces of the stripped text between line feeds.
\<close>

theorem parse_and_store_data_frame:
  fixes image_name data raw_data_dict
  defines "lines \<equiv> split_lines (strip data)"
  defines "stats \<equiv> concat (map line_records lines)"
  shows "((\<exists>l\<in>set lines. overlong l) \<longrightarrow>
            parse_and_store_data image_name data raw_data_dict = Inl ValueError) \<and>
         ((\<forall>l\<in>set lines. length l \<le> MAX_STR_DIGITS) \<longrightarrow> (\<forall>l\<in>set lines. \<not> overlong l)) \<and>
         ((\<forall>l\<in>set lines. \<not> overlong l) \<longrightarrow>
            (\<exists>store'. parse_and_store_data image_name data raw_data_dict = Inr (length stats, store') \<and>
               length stats = length (filter (\<lambda>l. match_seq row_pattern (strip l) \<noteq> None) lines) \<and>
               ((\<exists>l\<in>set lines. match_seq row_pattern (strip l) \<noteq> None) \<longrightarrow>
                  map_of store' image_name = Some stats) \<and>
               ((\<forall>l\<in>set lines. match_seq row_pattern (strip l) = None) \<longrightarrow> store' = raw_data_dict) \<and>
               (\<forall>k. k \<noteq> image_name \<longrightarrow> map_of store' k = map_of raw_data_dict k))) \<and>
         (Latin (CHR 0x0A) \<notin> set a \<longrightarrow> split_lines a = [a]) \<and>
         (Latin (CHR 0x0A) \<notin> set a \<longrightarrow> split_lines (a @ Latin (CHR 0x0A) # b) = a # split_lines b)"
proof -
  have raise: "parse_and_store_data image_name data raw_data_dict = Inl ValueError"
    if "\<exists>l\<in>set lines. overlong l"
    using that unfolding parse_and_store_data_def
    by (simp add: parse_lines_eq lines_def [symmetric])
  have short: "\<forall>l\<in>set lines. \<not> overlong l" if "\<forall>l\<in>set lines. length l \<le> MAX_STR_DIGITS"
    using that overlong_length by fastforce
  have ok: "\<exists>store'. parse_and_store_data image_name data raw_data_dict = Inr (length stats, store') \<and>
               length stats = length (filter (\<lambda>l. match_seq row_pattern (strip l) \<noteq> None) lines) \<and>
               ((\<exists>l\<in>set lines. match_seq row_pattern (strip l) \<noteq> None) \<longrightarrow>
                  map_of store' image_name = Some stats) \<and>
               ((\<forall>l\<in>set lines. match_seq row_pattern (strip l) = None) \<longrightarrow> store' = raw_data_dict) \<and>
               (\<forall>k. k \<noteq> image_name \<longrightarrow> map_of store' k = map_of raw_data_dict k)"
    if no: "\<forall>l\<in>set lines. \<not> overlong l"
  proof -
    have ne: "stats \<noteq> [] \<longleftrightarrow> (\<exists>l\<in>set lines. match_seq row_pattern (strip l) \<noteq> None)"
      using no by (auto simp: stats_def line_records_empty_iff)
    have res: "parse_lines lines [] = Inr stats"
      using no by (simp add: parse_lines_eq stats_def)
    show ?thesis
      unfolding parse_and_store_data_def lines_def [symmetric] res
      using ne length_concat_line_records [OF no, folded stats_def]
      by (simp add: dict_set_def update_conv')
  qed
  show ?thesis
    using raise short ok split_lines_single [of a] split_lines_append [of a b] by blast
qed



lemma files_differ: "RAW_STATS_FILE \<noteq> PLAYER_AVERAGES_FILE"
  by (simp add: RAW_STATS_FILE_def PLAYER_AVERAGES_FILE_def)

lemma read_after_write:
  "read_json_db json_load (write_json_db json_dump fs PLAYER_AVERAGES_FILE d) RAW_STATS_FILE
   = read_json_db json_load fs RAW_STATS_FILE"
  using files_differ by (simp add: read_json_db_def write_json_db_def split: file_state.splits)

lemma write_write:
  "write_json_db json_dump (write_json_db json_dump fs p d) p d = write_json_db json_dump fs p d"
  by (auto simp: write_json_db_def split: file_state.splits)

lemma update_player_averages_cases:
  assumes "update_player_averages fo json_load json_dump MIN_GAMES fs = Inr (out, fs')"
  shows "(out = NoRawData \<and> fs' = fs \<and>
            (read_json_db json_load fs RAW_STATS_FILE = Inr None \<or>
             read_json_db json_load fs RAW_STATS_FILE = Inr (Some []))) \<or>
         (\<exists>raw recent. out = RawDataEmpty \<and> fs' = fs \<and>
            read_json_db json_load fs RAW_STATS_FILE = Inr (Some raw) \<and> raw \<noteq> [] \<and>
            recent_files raw = Inr recent \<and> all_stats raw = []) \<or>
         (\<exists>raw recent new_averages n.
            out = Updated n (sum_list (map kills (all_stats raw))) (sum_list (map deaths (all_stats raw))) \<and>
            read_json_db json_load fs RAW_STATS_FILE = Inr (Some raw) \<and> raw \<noteq> [] \<and>
            recent_files raw = Inr recent \<and> all_stats raw \<noteq> [] \<and>
            compute_averages fo MIN_GAMES raw recent = Inr (new_averages, n) \<and>
            fs' = write_json_db json_dump fs PLAYER_AVERAGES_FILE new_averages)"
  using assms
  by (auto simp: update_player_averages_def split: option.splits if_splits sum.splits prod.splits)

text \<open>
  Claim C9. Running the aggregation a second time, on the files the first run left, gives the
  same outcome and leaves the files, the written averages among them, as they are.
\<close>

theorem update_player_averages_idempotent:
  assumes "update_player_averages fo json_load json_dump MIN_GAMES fs = Inr (out, fs')"
  shows "update_player_averages fo json_load json_dump MIN_GAMES fs' = Inr (out, fs')"
proof -
  consider "fs' = fs"
    | raw recent new_averages n where
      "out = Updated n (sum_list (map kills (all_stats raw))) (sum_list (map deaths (all_stats raw)))"
      "read_json_db json_load fs RAW_STATS_FILE = Inr (Some raw)" "raw \<noteq> []"
      "recent_files raw = Inr recent" "all_stats raw \<noteq> []"
      "compute_averages fo MIN_GAMES raw recent = Inr (new_averages, n)"
      "fs' = write_json_db json_dump fs PLAYER_AVERAGES_FILE new_averages"
    using update_player_averages_cases [OF assms] by blast
  then show ?thesis
  proof cases
    case 1
    then show ?thesis using assms by simp
  next
    case 2
    show ?thesis
      unfolding update_player_averages_def [of fo json_load json_dump MIN_GAMES fs']
      by (simp add: 2 read_after_write write_write)
  qed
qed

text \<open>
  Claim C10. When the raw store cannot be read or is empty, the function returns the no-data
  message and the files are untouched. Whenever the function returns, either no file changed
  or the outcome is the summary, the store was non-empty and the averages file was written
  with the freshly computed table.
\<close>

theorem update_player_averages_write:
  "(read_json_db json_load fs RAW_STATS_FILE = Inr None \<or>
    read_json_db json_load fs RAW_STATS_FILE = Inr (Some [])
      \<longrightarrow> update_player_averages fo json_load json_dump MIN_GAMES fs = Inr (NoRawData, fs)) \<and>
   (update_player_averages fo json_load json_dump MIN_GAMES fs = Inr (out, fs') \<longrightarrow>
      (case out of
         Updated n total_kills total_deaths \<Rightarrow>
           (\<exists>raw recent new_averages.
               read_json_db json_load fs RAW_STATS_FILE = Inr (Some raw) \<and> raw \<noteq> [] \<and>
               recent_files raw = Inr recent \<and>
               compute_averages fo MIN_GAMES raw recent = Inr (new_averages, n) \<and>
               fs' = write_json_db json_dump fs PLAYER_AVERAGES_FILE new_averages)
       | _ \<Rightarrow> fs' = fs))"
  by (auto simp: update_player_averages_def split: option.splits if_splits sum.splits prod.splits)


lemma example_recent:
  "recent_files example_store = Inr [asc ''3-c.png'', asc ''2-b.png'', asc ''1-a.png'']"
  by code_simp

lemma example_averages:
  "compute_averages exact_ops 2 example_store [asc ''3-c.png'', asc ''2-b.png'', asc ''1-a.png''] =
   Inr ([(asc ''Vortex'',
        \<lparr>games_played = 2, avg_place = 1, kd = 6, avg_kills = 12,
           avg_deaths = 2, avg_assists = 0, avg_score = 0\<rparr>),
       (asc ''Ghost'',
        \<lparr>games_played = 3, avg_place = 1, kd = 1 / 3, avg_kills = 33 / 100,
           avg_deaths = 0, avg_assists = 0, avg_score = 0\<rparr>)], 2)"
  by code_simp

lemma example_totals:
  "all_stats example_store \<noteq> []"
  "sum_list (map kills (all_stats example_store)) = 25"
  "sum_list (map deaths (all_stats example_store)) = 4"
  by code_simp+

lemma example_read:
  "read_json_db example_load example_fs RAW_STATS_FILE = Inr (Some example_store)"
  by (simp add: read_json_db_def example_fs_def example_load_def)

lemma example_store_nonempty: "example_store \<noteq> []"
  by (simp add: example_store_def)

lemma example_run:
  "update_player_averages exact_ops example_load example_dump 2 example_fs =
     Inr (Updated 2 25 4, example_fs(PLAYER_AVERAGES_FILE := Present ''xx''))"
  by (simp add: update_player_averages_def example_read example_store_nonempty example_recent
      example_averages example_totals write_json_db_def example_dump_def)
    (simp add: example_fs_def RAW_STATS_FILE_def PLAYER_AVERAGES_FILE_def example_dump_def)

theorem update_player_averages_idempotent_witness:
  "update_player_averages exact_ops example_load example_dump 2 example_fs =
     Inr (Updated 2 25 4, example_fs(PLAYER_AVERAGES_FILE := Present ''xx'')) \<and>
   update_player_averages exact_ops example_load example_dump 2
       (example_fs(PLAYER_AVERAGES_FILE := Present ''xx'')) =
     Inr (Updated 2 25 4, example_fs(PLAYER_AVERAGES_FILE := Present ''xx''))"
  using example_run update_player_averages_idempotent [OF example_run] by simp

lemma example_averages_none:
  "compute_averages exact_ops 5 example_store [asc ''3-c.png'', asc ''2-b.png'', asc ''1-a.png''] =
     Inr ([], 0)"
  by code_simp

lemma example_run_none:
  "update_player_averages exact_ops example_load example_dump 5 example_fs =
     Inr (Updated 0 25 4, example_fs(PLAYER_AVERAGES_FILE := Present []))"
  by (simp add: update_player_averages_def example_read example_store_nonempty example_recent
      example_averages_none example_totals write_json_db_def example_dump_def)
    (simp add: example_fs_def RAW_STATS_FILE_def PLAYER_AVERAGES_FILE_def example_dump_def)

theorem update_player_averages_write_witness:
  "read_json_db example_load (\<lambda>path. Absent) RAW_STATS_FILE = Inr (Some []) \<and>
   update_player_averages exact_ops example_load example_dump 5 (\<lambda>path. Absent) =
     Inr (NoRawData, \<lambda>path. Absent) \<and>
   update_player_averages exact_ops example_load example_dump 5 example_fs =
     Inr (Updated 0 25 4, example_fs(PLAYER_AVERAGES_FILE := Present [])) \<and>
   (\<exists>raw recent new_averages.
       read_json_db example_load example_fs RAW_STATS_FILE = Inr (Some raw) \<and> raw \<noteq> [] \<and>
       recent_files raw = Inr recent \<and>
       compute_averages exact_ops 5 raw recent = Inr (new_averages, 0) \<and>
       example_fs(PLAYER_AVERAGES_FILE := Present []) =
         write_json_db example_dump example_fs PLAYER_AVERAGES_FILE new_averages)"
proof -
  have a: "read_json_db example_load (\<lambda>path. Absent) RAW_STATS_FILE = Inr (Some [])"
    by (simp add: read_json_db_def)
  show ?thesis
    using a example_run_none
      update_player_averages_write [of example_load "\<lambda>path. Absent" exact_ops example_dump 5]
      update_player_averages_write [of example_load example_fs exact_ops example_dump 5
        "Updated 0 25 4" "example_fs(PLAYER_AVERAGES_FILE := Present [])"]
    by simp
qed

lemma long_number_facts:
  "digits long_number" "too_long long_number" "long_number \<noteq> []"
  "last long_number = Latin CHR ''1''" "set long_number = {Latin CHR ''1''}"
  "list_all is_digit long_number"
  by (simp_all add: digits_def too_long_def long_number_def MAX_STR_DIGITS_def list_all_iff)

lemma long_row_strip: "strip long_row = long_row"
  by (rule strip_id) (simp_all add: long_row_def asc_def long_number_facts)

lemma long_row_match:
  "match_seq row_pattern long_row =
     Some [asc ''1'', asc ''ab'', asc ''1'', asc ''2'', asc ''3'', asc ''4'', long_number]"
  unfolding long_row_def
  by (rule match_row)
    (simp_all add: long_number_facts digits_def spaces_def name_text_def asc_def)

lemma long_row_overlong: "overlong long_row"
  by (simp add: overlong_def long_row_strip long_row_match numbers_def long_number_facts)

lemma long_row_lines: "split_lines long_row = [long_row]"
  by (rule split_lines_single) (simp add: long_row_def asc_def long_number_facts)

text \<open>
  Claim C7 as stated fails for a row whose score has 4301 digits: the pattern matches,
  \<^verbatim>\<open>int\<close> raises \<^verbatim>\<open>ValueError\<close>, and the function neither returns a count nor stores
  the batch.
\<close>

theorem parse_and_store_data_frame_counterexample:
  "match_seq row_pattern (strip long_row) =
     Some [asc ''1'', asc ''ab'', asc ''1'', asc ''2'', asc ''3'', asc ''4'', long_number] \<and>
   length long_number = 4301 \<and>
   parse_and_store_data (asc ''4-d.png'') long_row example_store = Inl ValueError"
  by (simp add: long_row_strip long_row_match parse_and_store_data_def long_row_lines
      parse_lines_eq long_row_overlong) (simp add: long_number_def)

lemma example_lines:
  "split_lines (strip example_batch) =
     [asc ''1 Jos'' @ Latin (CHR 0xE9) # asc '' 10 2 0 5 100'', asc ''total 7 players'']"
  "split_lines (strip (asc ''total 7 players'')) = [asc ''total 7 players'']"
  by code_simp+

lemma example_line_records:
  "line_records (asc ''1 Jos'' @ Latin (CHR 0xE9) # asc '' 10 2 0 5 100'') =
     [\<lparr>place = 1, nickname = asc ''Jos'' @ [Latin (CHR 0xE9)], kills = 10, deaths = 2, assists = 0,
        treasury = 5, score = 100\<rparr>]"
  "line_records (asc ''total 7 players'') = []"
  by code_simp+

lemma example_line_matches:
  "match_seq row_pattern (strip (asc ''1 Jos'' @ Latin (CHR 0xE9) # asc '' 10 2 0 5 100'')) =
     Some [asc ''1'', asc ''Jos'' @ [Latin (CHR 0xE9)], asc ''10'', asc ''2'', asc ''0'', asc ''5'',
           asc ''100'']"
  "match_seq row_pattern (strip (asc ''total 7 players'')) = None"
  by code_simp+

lemma example_not_overlong:
  "\<not> overlong (asc ''1 Jos'' @ Latin (CHR 0xE9) # asc '' 10 2 0 5 100'')"
  "\<not> overlong (asc ''total 7 players'')"
  using overlong_length [of "asc ''1 Jos'' @ Latin (CHR 0xE9) # asc '' 10 2 0 5 100''"]
    overlong_length [of "asc ''total 7 players''"]
  by (auto simp: asc_def MAX_STR_DIGITS_def)

theorem parse_and_store_data_frame_witness:
  "(\<exists>store'. parse_and_store_data (asc ''4-d.png'') example_batch example_store = Inr (1, store') \<and>
      map_of store' (asc ''4-d.png'') =
        Some [\<lparr>place = 1, nickname = asc ''Jos'' @ [Latin (CHR 0xE9)], kills = 10, deaths = 2,
               assists = 0, treasury = 5, score = 100\<rparr>] \<and>
      (\<forall>k. k \<noteq> asc ''4-d.png'' \<longrightarrow> map_of store' k = map_of example_store k)) \<and>
   parse_and_store_data (asc ''4-d.png'') (asc ''total 7 players'') example_store =
     Inr (0, example_store) \<and>
   overlong long_row \<and>
   parse_and_store_data (asc ''4-d.png'') long_row example_store = Inl ValueError \<and>
   split_lines (asc ''ab'') = [asc ''ab''] \<and>
   split_lines (asc ''ab'' @ Latin (CHR 0x0A) # asc ''c'') = [asc ''ab'', asc ''c'']"
proof -
  have nl: "Latin (CHR 0x0A) \<notin> set (asc ''ab'')" "Latin (CHR 0x0A) \<notin> set (asc ''c'')"
    by (simp_all add: asc_def)
  show ?thesis
    using parse_and_store_data_frame [of example_batch "asc ''4-d.png''" example_store "asc ''ab''" "asc ''c''"]
      parse_and_store_data_frame [of "asc ''total 7 players''" "asc ''4-d.png''" example_store "asc ''c''"]
      parse_and_store_data_frame [of long_row "asc ''4-d.png''" example_store]
    by (simp add: example_lines example_line_records example_line_matches example_not_overlong
        long_row_strip long_row_lines long_row_overlong nl)
qed

subsection \<open>Grouping and averages\<close>

lemma levenshtein_refl: "levenshtein s s = 0"
  by (induction s) simp_all

lemma append_first_fit_None_iff:
  "append_first_fit nick st g = None \<longleftrightarrow> (\<forall>name\<in>set (map fst g). MAX_DISTANCE < levenshtein nick name)"
  by (induction g) (auto split: option.splits if_splits)

lemma append_first_fit_keys:
  "append_first_fit nick st g = Some g' \<Longrightarrow> map fst g' = map fst g"
  by (induction g arbitrary: g') (auto split: option.splits if_splits)

lemma append_first_fit_at:
  assumes "i < length g" "levenshtein nick (fst (g ! i)) \<le> MAX_DISTANCE"
    and "\<forall>j<i. MAX_DISTANCE < levenshtein nick (fst (g ! j))"
  shows "append_first_fit nick st g = Some (g[i := (fst (g ! i), snd (g ! i) @ [st])])"
  using assms
proof (induction g arbitrary: i)
  case Nil
  then show ?case by simp
next
  case (Cons p g)
  obtain name l where p: "p = (name, l)"
    by (cases p)
  show ?case
  proof (cases i)
    case 0
    then show ?thesis
      using Cons.prems p by simp
  next
    case (Suc k)
    have far: "MAX_DISTANCE < levenshtein nick name"
      using Cons.prems(3) Suc p by fastforce
    have "append_first_fit nick st g = Some (g[k := (fst (g ! k), snd (g ! k) @ [st])])"
    proof (rule Cons.IH)
      show "k < length g"
        using Cons.prems(1) Suc by simp
      show "levenshtein nick (fst (g ! k)) \<le> MAX_DISTANCE"
        using Cons.prems(2) Suc by simp
      show "\<forall>j<k. MAX_DISTANCE < levenshtein nick (fst (g ! j))"
        using Cons.prems(3) Suc by fastforce
    qed
    then show ?thesis
      using far Suc p by simp
  qed
qed

lemma dict_set_new: "k \<notin> set (map fst d) \<Longrightarrow> dict_set d k v = d @ [(k, v)]"
  unfolding dict_set_def by (induction d) auto

lemma group_step_new:
  assumes "\<forall>name\<in>set (map fst g). MAX_DISTANCE < levenshtein (nickname r) name"
  shows "group_step g r = g @ [(nickname r, [stats_of r])]"
proof -
  have "nickname r \<notin> set (map fst g)"
  proof
    assume "nickname r \<in> set (map fst g)"
    then have "MAX_DISTANCE < levenshtein (nickname r) (nickname r)"
      using assms by blast
    then show False
      by (simp add: levenshtein_refl)
  qed
  moreover have "append_first_fit (nickname r) (stats_of r) g = None"
    using assms by (simp add: append_first_fit_None_iff)
  ultimately show ?thesis
    by (simp add: group_step_def dict_set_new)
qed

lemma group_step_keys:
  "map fst (group_step g r) =
     (if \<forall>name\<in>set (map fst g). MAX_DISTANCE < levenshtein (nickname r) name
      then map fst g @ [nickname r] else map fst g)"
proof (cases "\<forall>name\<in>set (map fst g). MAX_DISTANCE < levenshtein (nickname r) name")
  case True
  then show ?thesis
    by (simp add: group_step_new)
next
  case False
  then obtain g' where "append_first_fit (nickname r) (stats_of r) g = Some g'"
    using append_first_fit_None_iff [of "nickname r" "stats_of r" g] by auto
  then show ?thesis
    using False by (simp add: group_step_def append_first_fit_keys)
qed

lemma group_step_distinct:
  assumes "distinct (map fst g)"
  shows "distinct (map fst (group_step g r))"
proof (cases "\<forall>name\<in>set (map fst g). MAX_DISTANCE < levenshtein (nickname r) name")
  case True
  then have "nickname r \<notin> set (map fst g)"
    using levenshtein_refl [of "nickname r"] by (metis not_less_zero)
  then show ?thesis
    using assms True by (simp add: group_step_keys)
next
  case False
  then have "map fst (group_step g r) = map fst g"
    by (subst group_step_keys) (rule if_not_P)
  then show ?thesis
    using assms by simp
qed

lemma append_first_fit_nonempty:
  "append_first_fit nick st g = Some g' \<Longrightarrow> list_all (\<lambda>p. snd p \<noteq> []) g \<Longrightarrow>
   list_all (\<lambda>p. snd p \<noteq> []) g'"
  by (induction g arbitrary: g') (auto split: option.splits if_splits)

lemma group_step_nonempty:
  assumes "list_all (\<lambda>p. snd p \<noteq> []) g"
  shows "list_all (\<lambda>p. snd p \<noteq> []) (group_step g r)"
proof (cases "append_first_fit (nickname r) (stats_of r) g")
  case None
  then have "group_step g r = g @ [(nickname r, [stats_of r])]"
    by (simp add: group_step_new append_first_fit_None_iff)
  then show ?thesis
    using assms by simp
next
  case (Some g')
  then show ?thesis
    using append_first_fit_nonempty [OF Some assms] by (simp add: group_step_def)
qed

lemma foldl_group_step_inv:
  assumes "distinct (map fst g)" "list_all (\<lambda>p. snd p \<noteq> []) g"
  shows "distinct (map fst (foldl group_step g rs)) \<and>
         list_all (\<lambda>p. snd p \<noteq> []) (foldl group_step g rs)"
  using assms
proof (induction rs arbitrary: g)
  case Nil
  then show ?case by simp
next
  case (Cons r rs)
  show ?case
    using Cons.IH [OF group_step_distinct [OF Cons.prems(1)] group_step_nonempty [OF Cons.prems(2)]]
    by simp
qed

lemma group_records_distinct: "distinct (map fst (group_records rs))"
  using foldl_group_step_inv [of "[]" rs] by (simp add: group_records_def)

lemma group_records_nonempty: "(name, l) \<in> set (group_records rs) \<Longrightarrow> l \<noteq> []"
  using foldl_group_step_inv [of "[]" rs] by (auto simp: group_records_def list_all_iff)

lemma group_records_snoc: "group_records (rs @ [r]) = group_step (group_records rs) r"
  by (simp add: group_records_def)

text \<open>
  Claim C1. One record is handled first-fit: if position \<open>i\<close> is the first name of the mapping
  within distance 3 of the record's nickname, the record's tuple is appended to the list at
  \<open>i\<close> and nothing else changes; if no name is within distance 3, the nickname is added at the
  end with a list holding just that tuple. The records are taken one after the other, those
  of a match in their order, the matches in the order of the store.
\<close>

theorem group_step_first_fit:
  "(i < length g \<and> levenshtein (nickname r) (fst (g ! i)) \<le> 3 \<and>
        (\<forall>j<i. 3 < levenshtein (nickname r) (fst (g ! j))) \<longrightarrow>
      group_step g r = g[i := (fst (g ! i), snd (g ! i) @ [stats_of r])]) \<and>
   ((\<forall>name\<in>set (map fst g). 3 < levenshtein (nickname r) name) \<longrightarrow>
      group_step g r = g @ [(nickname r, [stats_of r])]) \<and>
   group_records [] = [] \<and>
   group_records (rs @ [r]) = group_step (group_records rs) r \<and>
   all_stats [] = [] \<and>
   all_stats (raw @ [(match_id, player_stats)]) = all_stats raw @ player_stats"
proof -
  have a: "group_step g r = g[i := (fst (g ! i), snd (g ! i) @ [stats_of r])]"
    if "i < length g" "levenshtein (nickname r) (fst (g ! i)) \<le> 3"
      "\<forall>j<i. 3 < levenshtein (nickname r) (fst (g ! j))"
    using append_first_fit_at [of i g "nickname r" "stats_of r"] that
    by (simp add: group_step_def MAX_DISTANCE_def)
  have b: "group_step g r = g @ [(nickname r, [stats_of r])]"
    if "\<forall>name\<in>set (map fst g). 3 < levenshtein (nickname r) name"
    using group_step_new [of g r] that by (simp add: MAX_DISTANCE_def)
  show ?thesis
    using a b by (simp add: group_records_def all_stats_def)
qed

lemma averages_loop_eq:
  assumes "distinct (map fst acc @ map fst g)" "list_all (\<lambda>p. snd p \<noteq> []) g"
  shows "averages_loop fo MIN_GAMES active g (acc, k) =
     (if \<forall>p\<in>set (filter (eligible active MIN_GAMES) g). entry_record fo (snd p) \<noteq> None
      then Inr (acc @ map (\<lambda>p. (fst p, the (entry_record fo (snd p))))
                        (filter (eligible active MIN_GAMES) g),
                k + length (filter (eligible active MIN_GAMES) g))
      else Inl OverflowError)"
  using assms
proof (induction g arbitrary: acc k)
  case Nil
  then show ?case by simp
next
  case (Cons p g)
  obtain name l where p: "p = (name, l)"
    by (cases p)
  have l: "l \<noteq> []" and rest: "list_all (\<lambda>p. snd p \<noteq> []) g"
    using Cons.prems(2) p by simp_all
  show ?case
  proof (cases "eligible active MIN_GAMES p")
    case False
    have "distinct (map fst acc @ map fst g)"
      using Cons.prems(1) by simp
    from Cons.IH [OF this rest] False show ?thesis
      by (auto simp: p eligible_def)
  next
    case True
    show ?thesis
    proof (cases "entry_record fo l")
      case None
      then show ?thesis
        using True l by (simp add: p eligible_def player_entry_def)
    next
      case (Some entry)
      have new: "name \<notin> set (map fst acc)"
        using Cons.prems(1) p by auto
      have d: "distinct (map fst (acc @ [(name, entry)]) @ map fst g)"
        using Cons.prems(1) p by auto
      from Cons.IH [OF d rest] True l Some show ?thesis
        by (simp add: p eligible_def player_entry_def dict_set_new [OF new])
    qed
  qed
qed

lemma compute_averages_eq:
  "compute_averages fo MIN_GAMES raw recent =
     (if \<forall>p\<in>set (filter (eligible (active_nicknames raw recent) MIN_GAMES)
                      (group_records (all_stats raw))). entry_record fo (snd p) \<noteq> None
      then Inr (map (\<lambda>p. (fst p, the (entry_record fo (snd p))))
            (filter (eligible (active_nicknames raw recent) MIN_GAMES) (group_records (all_stats raw))),
          length (filter (eligible (active_nicknames raw recent) MIN_GAMES)
            (group_records (all_stats raw))))
      else Inl OverflowError)"
proof -
  have "distinct (map fst [] @ map fst (group_records (all_stats raw)))"
    by (simp add: group_records_distinct)
  moreover have "list_all (\<lambda>p. snd p \<noteq> []) (group_records (all_stats raw))"
    using group_records_nonempty by (auto simp: list_all_iff)
  ultimately show ?thesis
    unfolding compute_averages_def by (simp add: averages_loop_eq)
qed

lemma compute_averages_returns:
  "(\<exists>new_averages n. compute_averages fo MIN_GAMES raw recent = Inr (new_averages, n)) \<longleftrightarrow>
   (\<forall>p\<in>set (group_records (all_stats raw)).
      eligible (active_nicknames raw recent) MIN_GAMES p \<longrightarrow> entry_record fo (snd p) \<noteq> None)"
  by (auto simp: compute_averages_eq)


lemma averages_members:
  assumes "compute_averages fo MIN_GAMES raw recent = Inr (new_averages, n)"
  shows "set new_averages =
     (\<lambda>p. (fst p, the (entry_record fo (snd p)))) `
       {p \<in> set (group_records (all_stats raw)). eligible (active_nicknames raw recent) MIN_GAMES p}"
    and "\<forall>p\<in>set (group_records (all_stats raw)).
      eligible (active_nicknames raw recent) MIN_GAMES p \<longrightarrow> entry_record fo (snd p) \<noteq> None"
proof -
  have "new_averages = map (\<lambda>p. (fst p, the (entry_record fo (snd p))))
            (filter (eligible (active_nicknames raw recent) MIN_GAMES) (group_records (all_stats raw)))"
    using assms unfolding compute_averages_eq by (auto split: if_splits)
  then show "set new_averages =
     (\<lambda>p. (fst p, the (entry_record fo (snd p)))) `
       {p \<in> set (group_records (all_stats raw)). eligible (active_nicknames raw recent) MIN_GAMES p}"
    by simp
  show "\<forall>p\<in>set (group_records (all_stats raw)).
      eligible (active_nicknames raw recent) MIN_GAMES p \<longrightarrow> entry_record fo (snd p) \<noteq> None"
    using assms compute_averages_returns [of fo MIN_GAMES raw recent] by blast
qed


lemma averages_entry:
  assumes "compute_averages fo MIN_GAMES raw recent = Inr (new_averages, n)"
    and "(name, e) \<in> set new_averages"
  shows "\<exists>l. (name, l) \<in> set (group_records (all_stats raw)) \<and> l \<noteq> [] \<and>
             eligible (active_nicknames raw recent) MIN_GAMES (name, l) \<and>
             entry_record fo l = Some e"
proof -
  from assms(2) obtain p where p: "p \<in> set (group_records (all_stats raw))"
    "eligible (active_nicknames raw recent) MIN_GAMES p" "name = fst p"
    "e = the (entry_record fo (snd p))"
    unfolding averages_members(1) [OF assms(1)] by auto
  have m: "(name, snd p) \<in> set (group_records (all_stats raw))"
    using p(1,3) by simp
  then have "snd p \<noteq> []"
    by (rule group_records_nonempty)
  moreover have "eligible (active_nicknames raw recent) MIN_GAMES (name, snd p)"
    using p(2,3) by simp
  moreover have "entry_record fo (snd p) = Some e"
    using averages_members(2) [OF assms(1)] p(1,2,4) by auto
  ultimately show ?thesis
    using m by blast
qed



text \<open>
  Claim C4. Every entry of the table belongs to a name of the grouping with a non-empty list;
  with \<open>avg_k\<close> and \<open>avg_d\<close> the means of its kills and deaths, \<open>kd\<close> is
  \<open>round2 (avg_k / avg_d)\<close> when \<open>avg_d > 0\<close> and \<open>avg_k\<close> itself, not rounded, otherwise,
  while \<open>avg_kills\<close> is \<open>round2 avg_k\<close>.
\<close>

theorem kd_computation:
  assumes "compute_averages fo MIN_GAMES raw recent = Inr (new_averages, n)"
    and "(name, e) \<in> set new_averages"
  shows "\<exists>l avg_k avg_d. (name, l) \<in> set (group_records (all_stats raw)) \<and> l \<noteq> [] \<and>
     int_div fo (sum_kills l) (int (length l)) = Some avg_k \<and>
     int_div fo (sum_deaths l) (int (length l)) = Some avg_d \<and>
     (positive fo avg_d \<longrightarrow> kd e = round2 fo (float_div fo avg_k avg_d)) \<and>
     (\<not> positive fo avg_d \<longrightarrow> kd e = avg_k) \<and>
     avg_kills e = round2 fo avg_k \<and> avg_deaths e = round2 fo avg_d"
proof -
  from averages_entry [OF assms] obtain l where
    l: "(name, l) \<in> set (group_records (all_stats raw))" "l \<noteq> []" "entry_record fo l = Some e"
    by blast
  from l(3) obtain avg_k avg_d where
    k: "int_div fo (sum_kills l) (int (length l)) = Some avg_k"
    and d: "int_div fo (sum_deaths l) (int (length l)) = Some avg_d"
    and e: "kd e = (if positive fo avg_d then round2 fo (float_div fo avg_k avg_d) else avg_k)"
      "avg_kills e = round2 fo avg_k" "avg_deaths e = round2 fo avg_d"
    unfolding entry_record_def Let_def by (auto split: option.splits)
  show ?thesis
    using l(1,2) k d e by (intro exI [of _ l] exI [of _ avg_k] exI [of _ avg_d]) simp
qed

lemma example_distances:
  "levenshtein (asc ''V0rtex'') (asc ''Ghost'') = 6"
  "levenshtein (asc ''V0rtex'') (asc ''Vortex'') = 1"
  "levenshtein (asc ''Kilo99'') (asc ''Ghost'') = 5"
  "levenshtein (asc ''Kilo99'') (asc ''Vortex'') = 6"
  "levenshtein (asc ''Kilo99'') (asc ''Vortez'') = 6"
  by code_simp+

theorem group_step_first_fit_witness:
  "group_step example_groups (mk_record ''V0rtex'' 14 2) =
     [(asc ''Ghost'', [(1, 1, 0, 0, 0, 0)]),
      (asc ''Vortex'', [(1, 10, 2, 0, 0, 0), (1, 14, 2, 0, 0, 0)]),
      (asc ''Vortez'', [(1, 3, 3, 0, 0, 0)])] \<and>
   group_step example_groups (mk_record ''Kilo99'' 0 0) =
     [(asc ''Ghost'', [(1, 1, 0, 0, 0, 0)]), (asc ''Vortex'', [(1, 10, 2, 0, 0, 0)]),
      (asc ''Vortez'', [(1, 3, 3, 0, 0, 0)]), (asc ''Kilo99'', [(1, 0, 0, 0, 0, 0)])]"
  using group_step_first_fit [of 1 example_groups "mk_record ''V0rtex'' 14 2"]
    group_step_first_fit [of 0 example_groups "mk_record ''Kilo99'' 0 0"]
  by (simp add: example_groups_def mk_record_def stats_of_def example_distances)






theorem kd_computation_witness:
  "compute_averages exact_ops 2 example_store [asc ''3-c.png'', asc ''2-b.png'', asc ''1-a.png''] =
   Inr ([(asc ''Vortex'',
        \<lparr>games_played = 2, avg_place = 1, kd = 6, avg_kills = 12,
           avg_deaths = 2, avg_assists = 0, avg_score = 0\<rparr>),
       (asc ''Ghost'',
        \<lparr>games_played = 3, avg_place = 1, kd = 1 / 3, avg_kills = 33 / 100,
           avg_deaths = 0, avg_assists = 0, avg_score = 0\<rparr>)], 2) \<and>
   (\<exists>l avg_k avg_d. (asc ''Ghost'', l) \<in> set (group_records (all_stats example_store)) \<and> l \<noteq> [] \<and>
     int_div exact_ops (sum_kills l) (int (length l)) = Some avg_k \<and>
     int_div exact_ops (sum_deaths l) (int (length l)) = Some avg_d \<and>
     (positive exact_ops avg_d \<longrightarrow>
        (1 / 3 :: rat) = round2 exact_ops (float_div exact_ops avg_k avg_d)) \<and>
     (\<not> positive exact_ops avg_d \<longrightarrow> (1 / 3 :: rat) = avg_k) \<and>
     (33 / 100 :: rat) = round2 exact_ops avg_k \<and> (0 :: rat) = round2 exact_ops avg_d)"
  using example_averages
    kd_computation [OF example_averages, of "asc ''Ghost''"
      "\<lparr>games_played = 3, avg_place = 1, kd = 1 / 3, avg_kills = 33 / 100,
           avg_deaths = 0, avg_assists = 0, avg_score = 0\<rparr>"]
  by simp

lemma gating_recent_files: "recent_files gating_store = Inr gating_recent"
  by code_simp








subsection \<open>The recent window\<close>

lemma file_keys_Inr:
  "file_keys files = Inr kfs \<Longrightarrow>
   map snd kfs = files \<and> (\<forall>p\<in>set kfs. file_key (snd p) = Inr (fst p))"
  by (induction files arbitrary: kfs) (auto split: sum.splits)

lemma file_keys_total:
  "\<forall>f\<in>set files. \<not> isl (file_key f) \<Longrightarrow> \<exists>kfs. file_keys files = Inr kfs"
proof (induction files)
  case Nil
  then show ?case by simp
next
  case (Cons f files)
  then obtain kfs where "file_keys files = Inr kfs"
    by auto
  moreover obtain k where "file_key f = Inr k"
    using Cons.prems by (cases "file_key f") auto
  ultimately show ?case
    by simp
qed

lemma file_keys_error: "file_keys files = Inl e \<Longrightarrow> e = ValueError"
proof (induction files)
  case Nil
  then show ?case by simp
next
  case (Cons f files)
  then show ?case
    using py_int_error [of "takeWhile (\<lambda>c. c \<noteq> Latin CHR ''-'') f"]
    by (auto simp: file_key_def split: sum.splits)
qed

lemma file_keys_isl: "isl (file_keys files) \<longleftrightarrow> (\<exists>f\<in>set files. isl (file_key f))"
  by (induction files) (auto split: sum.splits)

lemma file_keys_raises:
  assumes "\<exists>f\<in>set files. isl (file_key f)"
  shows "file_keys files = Inl ValueError"
proof -
  have "isl (file_keys files)"
    using assms by (simp only: file_keys_isl)
  then obtain e where "file_keys files = Inl e"
    by (cases "file_keys files") auto
  then show ?thesis
    using file_keys_error by blast
qed

lemma file_key_digits:
  "digits (key_prefix f) \<Longrightarrow>
   file_key f = (if too_long (key_prefix f) then Inl ValueError else Inr (int (decimal (key_prefix f))))"
  unfolding file_key_def key_prefix_def [symmetric] by (rule py_int_digits)

lemma sorted_take_drop:
  assumes "sorted (map h xs)" "x \<in> set (take n xs)" "y \<in> set (drop n xs)"
  shows "h x \<le> h y"
proof -
  have "sorted (map h (take n xs) @ map h (drop n xs))"
    using assms(1) by (simp flip: map_append)
  then show ?thesis
    using assms(2,3) by (auto simp: sorted_append)
qed

lemma recent_files_spec:
  assumes "distinct files" "\<forall>f\<in>set files. \<not> isl (file_key f)"
  shows "\<exists>sorted_files. sort_files_desc files = Inr sorted_files \<and> distinct sorted_files \<and>
           set sorted_files = set files \<and> length sorted_files = length files \<and>
           (\<forall>f\<in>set (take n sorted_files). \<forall>g\<in>set (drop n sorted_files).
              \<forall>k k'. file_key f = Inr k \<and> file_key g = Inr k' \<longrightarrow> k' \<le> k)"
proof -
  from file_keys_total [OF assms(2)] obtain kfs where kfs: "file_keys files = Inr kfs"
    by blast
  note k = file_keys_Inr [OF kfs]
  let ?S = "sort_key (\<lambda>kf. - fst kf) kfs"
  have res: "sort_files_desc files = Inr (map snd ?S)"
    by (simp add: sort_files_desc_def kfs)
  have inj: "inj_on snd (set kfs)"
  proof (rule inj_onI)
    fix p q
    assume "p \<in> set kfs" "q \<in> set kfs" "snd p = snd q"
    then have "Inr (fst p) = (Inr (fst q) :: py_error + int)"
      using k by metis
    then show "p = q"
      using \<open>snd p = snd q\<close> by (simp add: prod_eq_iff)
  qed
  have dk: "distinct kfs"
    using assms(1) k by (metis distinct_map)
  have d: "distinct (map snd ?S)"
    using inj dk by (simp add: distinct_map)
  have s: "set (map snd ?S) = set files"
    using k by (metis set_map set_sort)
  have l: "length (map snd ?S) = length files"
    using k by (metis length_map length_sort)
  have sorted: "sorted (map (\<lambda>kf. - fst kf) ?S)"
    by (rule sorted_sort_key)
  have ord: "k' \<le> k"
    if "f \<in> set (take n (map snd ?S))" "g \<in> set (drop n (map snd ?S))"
      "file_key f = Inr k" "file_key g = Inr k'" for f g k k'
  proof -
    from that(1) obtain p where p: "p \<in> set (take n ?S)" "f = snd p"
      by (auto simp: take_map)
    from that(2) obtain q where q: "q \<in> set (drop n ?S)" "g = snd q"
      by (auto simp: drop_map)
    have "p \<in> set kfs" "q \<in> set kfs"
      using p(1) q(1) by (auto dest: in_set_takeD in_set_dropD)
    then have "fst p = k" "fst q = k'"
      using k p(2) q(2) that(3,4) by auto
    moreover have "- fst p \<le> - fst q"
      using sorted p(1) q(1) by (rule sorted_take_drop)
    ultimately show ?thesis
      by simp
  qed
  show ?thesis
    using res d s l ord by blast
qed

lemma active_nicknames_set:
  assumes "distinct (map fst raw)"
  shows "active_nicknames raw recent =
     {nickname r | f rs r. f \<in> set recent \<and> (f, rs) \<in> set raw \<and> r \<in> set rs}"
  using assms
  by (auto simp: active_nicknames_def split: option.splits)

text \<open>
  Claim C2, as the code has it. Take a store whose keys are distinct and all begin with
  decimal digits up to the first hyphen. If the digits of some key are more than 4300,
  \<^verbatim>\<open>int\<close> raises \<^verbatim>\<open>ValueError\<close> and no set is computed. Otherwise \<open>recent_files\<close> returns
  \<open>min 10 n\<close> distinct keys of the store, the number written before the hyphen of every one
  of them at least as large as that of every key left out, and the active nicknames are
  exactly the nicknames of the records stored under those keys.
\<close>

theorem recent_window_nicknames:
  assumes "distinct (map fst raw)" "\<forall>f\<in>set (map fst raw). digits (key_prefix f)"
  shows "((\<exists>f\<in>set (map fst raw). too_long (key_prefix f)) \<longrightarrow> recent_files raw = Inl ValueError) \<and>
         ((\<forall>f\<in>set (map fst raw). \<not> too_long (key_prefix f)) \<longrightarrow>
            (\<exists>recent. recent_files raw = Inr recent \<and> distinct recent \<and>
               set recent \<subseteq> set (map fst raw) \<and> length recent = min 10 (length raw) \<and>
               (\<forall>f\<in>set recent. \<forall>g\<in>set (map fst raw) - set recent.
                  decimal (key_prefix g) \<le> decimal (key_prefix f)) \<and>
               active_nicknames raw recent =
                  {nickname r | f rs r. f \<in> set recent \<and> (f, rs) \<in> set raw \<and> r \<in> set rs}))"
proof (intro conjI impI)
  assume "\<exists>f\<in>set (map fst raw). too_long (key_prefix f)"
  then have "\<exists>f\<in>set (map fst raw). isl (file_key f)"
    using assms(2) by (auto simp: file_key_digits)
  then show "recent_files raw = Inl ValueError"
    by (simp add: recent_files_def sort_files_desc_def file_keys_raises)
next
  assume short: "\<forall>f\<in>set (map fst raw). \<not> too_long (key_prefix f)"
  have key: "file_key f = Inr (int (decimal (key_prefix f)))" if "f \<in> set (map fst raw)" for f
  proof -
    have "digits (key_prefix f)" "\<not> too_long (key_prefix f)"
      using that assms(2) short by blast+
    then show ?thesis
      by (simp add: file_key_digits)
  qed
  then have ok: "\<forall>f\<in>set (map fst raw). \<not> isl (file_key f)"
    by simp
  from recent_files_spec [OF assms(1) ok, of 10] obtain S where
    S: "sort_files_desc (map fst raw) = Inr S" "distinct S" "set S = set (map fst raw)"
      "length S = length (map fst raw)"
    and ord: "\<forall>f\<in>set (take 10 S). \<forall>g\<in>set (drop 10 S).
              \<forall>k k'. file_key f = Inr k \<and> file_key g = Inr k' \<longrightarrow> k' \<le> k"
    by blast
  have r: "recent_files raw = Inr (take 10 S)"
    by (simp add: recent_files_def S(1))
  have "set (take 10 S) \<union> set (drop 10 S) = set (map fst raw)"
    using S(3) by (metis append_take_drop_id set_append)
  then have rest: "set (map fst raw) - set (take 10 S) \<subseteq> set (drop 10 S)"
    by blast
  have sub: "set (take 10 S) \<subseteq> set (map fst raw)"
    using S(3) by (auto dest: in_set_takeD)
  have "distinct (take 10 S)" "length (take 10 S) = min 10 (length raw)"
    using S(2,4) by (auto simp: min_def)
  moreover have "decimal (key_prefix g) \<le> decimal (key_prefix f)"
    if "f \<in> set (take 10 S)" "g \<in> set (map fst raw) - set (take 10 S)" for f g
  proof -
    have "f \<in> set (map fst raw)" "g \<in> set (map fst raw)" "g \<in> set (drop 10 S)"
      using that sub rest by auto
    then have "int (decimal (key_prefix g)) \<le> int (decimal (key_prefix f))"
      using ord that(1) key [of f] key [of g] by blast
    then show ?thesis
      by simp
  qed
  ultimately show "\<exists>recent. recent_files raw = Inr recent \<and> distinct recent \<and>
               set recent \<subseteq> set (map fst raw) \<and> length recent = min 10 (length raw) \<and>
               (\<forall>f\<in>set recent. \<forall>g\<in>set (map fst raw) - set recent.
                  decimal (key_prefix g) \<le> decimal (key_prefix f)) \<and>
               active_nicknames raw recent =
                  {nickname r | f rs r. f \<in> set recent \<and> (f, rs) \<in> set raw \<and> r \<in> set rs}"
    using r sub active_nicknames_set [OF assms(1), of "take 10 S"] by blast
qed

lemma long_key_prefix: "key_prefix (long_number @ asc ''-a.png'') = long_number"
proof -
  have "takeWhile (\<lambda>c. c \<noteq> Latin CHR ''-'') (long_number @ asc ''-a.png'') =
      long_number @ takeWhile (\<lambda>c. c \<noteq> Latin CHR ''-'') (asc ''-a.png'')"
    by (rule takeWhile_append2) (simp add: long_number_facts)
  then show ?thesis
    by (simp add: key_prefix_def asc_def)
qed

text \<open>
  Claim C2 as stated fails on a store whose one key has a prefix of 4301 digits: the prefix
  is a number, and sorting the keys raises \<^verbatim>\<open>ValueError\<close>.
\<close>

theorem recent_window_nicknames_counterexample:
  "map fst long_key_store = [long_number @ asc ''-a.png''] \<and>
   key_prefix (long_number @ asc ''-a.png'') = long_number \<and>
   digits long_number \<and> length long_number = 4301 \<and>
   recent_files long_key_store = Inl ValueError"
proof -
  have "file_key (long_number @ asc ''-a.png'') = Inl ValueError"
    by (simp add: file_key_digits long_key_prefix long_number_facts)
  then have "recent_files long_key_store = Inl ValueError"
    by (simp add: recent_files_def sort_files_desc_def long_key_store_def)
  moreover have "length long_number = 4301"
    by (simp add: long_number_def)
  ultimately show ?thesis
    by (simp add: long_key_store_def long_key_prefix long_number_facts)
qed

lemma gating_keys:
  "distinct (map fst gating_store)"
  "list_all (\<lambda>f. digits (key_prefix f) \<and> \<not> too_long (key_prefix f)) (map fst gating_store)"
  by code_simp+

lemma gating_prefixes:
  "map (\<lambda>f. decimal (key_prefix f)) gating_recent = [11, 10, 9, 8, 7, 6, 5, 4, 3, 2]"
  "decimal (key_prefix (asc ''1-old.png'')) = 1"
  by code_simp+

theorem recent_window_nicknames_witness:
  "distinct (map fst gating_store) \<and>
   list_all (\<lambda>f. digits (key_prefix f) \<and> \<not> too_long (key_prefix f)) (map fst gating_store) \<and>
   recent_files gating_store = Inr gating_recent \<and>
   map (\<lambda>f. decimal (key_prefix f)) gating_recent = [11, 10, 9, 8, 7, 6, 5, 4, 3, 2] \<and>
   (\<exists>recent. recent_files gating_store = Inr recent \<and> distinct recent \<and>
           set recent \<subseteq> set (map fst gating_store) \<and> length recent = min 10 (length gating_store) \<and>
           (\<forall>f\<in>set recent. \<forall>g\<in>set (map fst gating_store) - set recent.
              decimal (key_prefix g) \<le> decimal (key_prefix f)) \<and>
           active_nicknames gating_store recent =
              {nickname r | f rs r. f \<in> set recent \<and> (f, rs) \<in> set gating_store \<and> r \<in> set rs}) \<and>
   distinct (map fst long_key_store) \<and>
   list_all (\<lambda>f. digits (key_prefix f)) (map fst long_key_store) \<and>
   list_ex (\<lambda>f. too_long (key_prefix f)) (map fst long_key_store) \<and>
   recent_files long_key_store = Inl ValueError"
proof -
  have g: "\<forall>f\<in>set (map fst gating_store). digits (key_prefix f)"
    "\<forall>f\<in>set (map fst gating_store). \<not> too_long (key_prefix f)"
    using gating_keys(2) by (simp_all only: list_all_iff) blast+
  have l: "distinct (map fst long_key_store)"
    "\<forall>f\<in>set (map fst long_key_store). digits (key_prefix f)"
    "\<exists>f\<in>set (map fst long_key_store). too_long (key_prefix f)"
    by (simp_all add: long_key_store_def long_key_prefix long_number_facts)
  have l': "list_all (\<lambda>f. digits (key_prefix f)) (map fst long_key_store)"
    "list_ex (\<lambda>f. too_long (key_prefix f)) (map fst long_key_store)"
    using l(2,3) by (simp_all only: list_all_iff list_ex_iff)
  show ?thesis
    using gating_keys gating_recent_files gating_prefixes(1) l(1) l'
      recent_window_nicknames [OF gating_keys(1) g(1)]
      recent_window_nicknames [OF l(1) l(2)] g(2) l(3)
    by blast
qed

subsection \<open>Parsing a row\<close>







end
